theory Spec2Isabelle
  imports Main "HOL-Library.Sublist"
begin

section \<open>Values, regular expressions and errors\<close>

text \<open>
  Tokens and parse trees are JavaScript values. The model keeps the JSON-like values
  the parser itself builds and inspects: \<open>undefined\<close>, \<open>null\<close>, booleans, integer
  numbers, strings, arrays, and the empty object \<open>expressionBuilderFlag\<close> that
  \<open>parse\<close> creates to tag subtrees. A character stands for one UTF-16 code unit.
\<close>

datatype "value" =
    Undefined
  | Null
  | Bool bool
  | Num int
  | Str string
  | Arr "value list"
  | Flag

text \<open>JavaScript truthiness, as used by \<open>if ( next )\<close> and \<open>if ( !result )\<close>.\<close>

fun truthy :: "value \<Rightarrow> bool" where
  "truthy Undefined = False"
| "truthy Null = False"
| "truthy (Bool b) = b"
| "truthy (Num n) = (n \<noteq> 0)"
| "truthy (Str s) = (s \<noteq> [])"
| "truthy (Arr xs) = True"
| "truthy Flag = True"

text \<open>
  A \<open>RegExp\<close> object is its source pattern and its flags. What a pattern matches is
  decided by the JavaScript regular-expression engine, which is a parameter of the
  model: \<open>test E r v\<close> is \<open>r.test( v )\<close> (the engine converts \<open>v\<close> to a string), and
  \<open>exec E r s\<close> is \<open>r.exec( s )\<close>, either no match or the matched text \<open>match[0]\<close>
  with the capture groups \<open>match[1]\<close>, \<open>match[2]\<close>, ... (a group that did not
  take part is \<open>None\<close>). Patterns are matched statelessly (no \<open>g\<close> or \<open>y\<close> flag).
\<close>

datatype regexp = RegExp (source: string) (flags: string)

datatype matchres = Match (whole: string) (groups: "string option list")

record engine =
  test :: "regexp \<Rightarrow> value \<Rightarrow> bool"
  exec :: "regexp \<Rightarrow> string \<Rightarrow> matchres option"

text \<open>\<open>RegExp.prototype.toString\<close>: the pattern between slashes, then the flags.\<close>

definition toString :: "regexp \<Rightarrow> string" where
  "toString r = ''/'' @ source r @ ''/'' @ flags r"

text \<open>The exceptions a call can raise.\<close>

datatype error =
    TypeError
  | UnknownNonterminal string
  | IterationLimit

section \<open>Tokenizer\<close>

text \<open>
  A formatter is a function of the matched text and the match object, or anything else,
  which \<open>tokenize\<close> turns into a string and uses as a template.
\<close>

datatype formatter =
    Fn "string \<Rightarrow> matchres \<Rightarrow> value"
  | Template string

record tokenType =
  regexp :: regexp
  formatter :: formatter

type_synonym tokenizer = "tokenType list"

text \<open>\<open>addType\<close>: a pattern whose source does not start with \<open>^\<close> is wrapped.\<close>

definition addType :: "tokenizer \<Rightarrow> regexp \<Rightarrow> formatter \<Rightarrow> tokenizer" where
  "addType tokenTypes re fmt =
     (let re' = (if (case source re of [] \<Rightarrow> True | c # _ \<Rightarrow> c \<noteq> CHR ''^'')
                 then RegExp (''^(?:'' @ source re @ '')'') []
                 else re)
      in tokenTypes @ [\<lparr> regexp = re', formatter = fmt \<rparr>])"

text \<open>The default formatter \<open>x => x\<close>.\<close>

definition identityFormatter :: formatter where
  "identityFormatter = Fn (\<lambda>text m. Str text)"

subsection \<open>Format strings\<close>

definition isDigit :: "char \<Rightarrow> bool" where
  "isDigit c = (c \<in> set ''0123456789'')"

text \<open>
  The first match of \<open>/\%([0-9]+)/\<close> in a format string: the text before it, the
  digits, and the text after it.
\<close>

fun findPlaceholder :: "string \<Rightarrow> (string \<times> string \<times> string) option" where
  "findPlaceholder [] = None"
| "findPlaceholder (c # cs) =
     (if c = CHR ''%'' \<and> takeWhile isDigit cs \<noteq> []
      then Some ([], takeWhile isDigit cs, dropWhile isDigit cs)
      else (case findPlaceholder cs of
              None \<Rightarrow> None
            | Some (before, digits, rest) \<Rightarrow> Some (c # before, digits, rest)))"

fun digitValue :: "char \<Rightarrow> nat" where
  "digitValue c = (of_char c :: nat) - 48"

definition decimal :: "string \<Rightarrow> nat" where
  "decimal ds = foldl (\<lambda>n c. 10 * n + digitValue c) 0 ds"

text \<open>
  \<open>match[next[1]]\<close> inside a string concatenation. The property name is the digit
  string itself, so only a canonical index (no leading zero) names an element of the
  match; anything absent prints as \<open>undefined\<close>.
\<close>

definition matchGroup :: "matchres \<Rightarrow> string \<Rightarrow> string" where
  "matchGroup m digits =
     (if digits = ''0'' then whole m
      else if hd digits = CHR ''0'' then ''undefined''
      else if decimal digits \<le> length (groups m)
      then (case groups m ! (decimal digits - 1) of
              None \<Rightarrow> ''undefined''
            | Some g \<Rightarrow> g)
      else ''undefined'')"

lemma findPlaceholder_shorter:
  "findPlaceholder fmt = Some (before, digits, rest) \<Longrightarrow> length rest < length fmt"
proof (induction fmt arbitrary: before)
  case Nil
  then show ?case by simp
next
  case (Cons c cs)
  show ?case
  proof (cases "c = CHR ''%'' \<and> takeWhile isDigit cs \<noteq> []")
    case True
    with Cons.prems have "rest = dropWhile isDigit cs" by simp
    then show ?thesis by (simp add: length_dropWhile_le le_imp_less_Suc)
  next
    case False
    with Cons.prems obtain b where "findPlaceholder cs = Some (b, digits, rest)"
      by (auto split: option.splits)
    from Cons.IH [OF this] show ?thesis by simp
  qed
qed

function expandFormat :: "string \<Rightarrow> matchres \<Rightarrow> string" where
  "expandFormat fmt m =
     (case findPlaceholder fmt of
        None \<Rightarrow> fmt
      | Some (before, digits, rest) \<Rightarrow> before @ matchGroup m digits @ expandFormat rest m)"
  by pat_completeness auto
termination
  by (relation "measure (\<lambda>(fmt, m). length fmt)") (auto dest: findPlaceholder_shorter)

subsection \<open>tokenize\<close>

text \<open>
  The \<open>for\<close> loop over the token types stops at the first type whose pattern matches
  the remaining input.
\<close>

fun firstMatch :: "engine \<Rightarrow> tokenizer \<Rightarrow> string \<Rightarrow> (tokenType \<times> matchres) option" where
  "firstMatch E [] input = None"
| "firstMatch E (ty # tys) input =
     (case exec E (regexp ty) input of
        None \<Rightarrow> firstMatch E tys input
      | Some m \<Rightarrow> Some (ty, m))"

text \<open>What the matching type appends to \<open>result\<close>.\<close>

definition emit :: "tokenType \<Rightarrow> matchres \<Rightarrow> value list \<Rightarrow> value list" where
  "emit ty m result =
     (case formatter ty of
        Fn f \<Rightarrow> (let next = f (whole m) m in if truthy next then result @ [next] else result)
      | Template fmt \<Rightarrow> result @ [Str (expandFormat fmt m)])"

text \<open>
  One pass of the \<open>while\<close> loop, entered with a nonempty input: \<open>None\<close> is
  \<open>return null\<close>; otherwise the remaining input and the tokens so far.
\<close>

definition tokenizePass ::
  "engine \<Rightarrow> tokenizer \<Rightarrow> string \<Rightarrow> value list \<Rightarrow> (string \<times> value list) option" where
  "tokenizePass E tokenTypes input result =
     (case firstMatch E tokenTypes input of
        None \<Rightarrow> None
      | Some (ty, m) \<Rightarrow>
          (let input' = drop (length (whole m)) input;
               result' = emit ty m result
           in if length input' = length input then None else Some (input', result')))"

lemma tokenizePass_shorter:
  "tokenizePass E tokenTypes input result = Some (input', result') \<Longrightarrow>
     length input' < length input"
  unfolding tokenizePass_def Let_def
  by (cases "firstMatch E tokenTypes input") (auto split: if_splits)

function tokenizeLoop :: "engine \<Rightarrow> tokenizer \<Rightarrow> string \<Rightarrow> value list \<Rightarrow> value list option" where
  "tokenizeLoop E tokenTypes input result =
     (if length input > 0
      then (case tokenizePass E tokenTypes input result of
              None \<Rightarrow> None
            | Some (input', result') \<Rightarrow> tokenizeLoop E tokenTypes input' result')
      else Some result)"
  by pat_completeness auto
termination
  by (relation "measure (\<lambda>(E, tokenTypes, input, result). length input)")
     (auto dest: tokenizePass_shorter)

definition tokenize :: "engine \<Rightarrow> tokenizer \<Rightarrow> string \<Rightarrow> value list option" where
  "tokenize E tokenTypes input = tokenizeLoop E tokenTypes input []"

text \<open>
  The same loop with a bound on the number of passes: the outer \<open>None\<close> says that
  the bound was reached with input left over.
\<close>

fun tokenizeBounded ::
  "nat \<Rightarrow> engine \<Rightarrow> tokenizer \<Rightarrow> string \<Rightarrow> value list \<Rightarrow> value list option option" where
  "tokenizeBounded n E tokenTypes input result =
     (if length input > 0
      then (case n of
              0 \<Rightarrow> None
            | Suc n' \<Rightarrow>
                (case tokenizePass E tokenTypes input result of
                   None \<Rightarrow> Some None
                 | Some (input', result') \<Rightarrow> tokenizeBounded n' E tokenTypes input' result'))
      else Some (Some result))"

text \<open>
  The remaining input and the tokens so far once \<open>k\<close> passes of the loop have run
  without a \<open>return\<close> (fewer when the input is used up before): the positions of the
  input that \<open>tokenize\<close> reaches. \<open>None\<close> says that one of these passes returned null.
\<close>

fun afterPasses ::
  "nat \<Rightarrow> engine \<Rightarrow> tokenizer \<Rightarrow> string \<times> value list \<Rightarrow> (string \<times> value list) option" where
  "afterPasses 0 E tokenTypes (input, result) = Some (input, result)"
| "afterPasses (Suc k) E tokenTypes (input, result) =
     (if length input > 0
      then (case tokenizePass E tokenTypes input result of
              None \<Rightarrow> None
            | Some p \<Rightarrow> afterPasses k E tokenTypes p)
      else Some (input, result))"

section \<open>Grammar\<close>

text \<open>
  An entry of a right-hand side is a string (the name of a nonterminal) or a regular
  expression (a terminal). Right-hand sides are JavaScript arrays, which the grammar
  and its caller may share; they live in a store, and an address is an index into it.
\<close>

datatype entry = Nonterminal string | Terminal regexp

type_synonym addr = nat

type_synonym heap = "entry list list"

record options =
  addCategories :: bool
  collapseBranches :: bool
  showDebuggingOutput :: bool
  expressionBuilder :: "(value \<Rightarrow> value) option"
  tokenizer :: "tokenizer option"
  comparator :: "value \<Rightarrow> value \<Rightarrow> bool"
  maxIterations :: int

text \<open>One property of an options object: a name with its value.\<close>

datatype setting =
    AddCategories bool
  | CollapseBranches bool
  | ShowDebuggingOutput bool
  | ExpressionBuilder "(value \<Rightarrow> value) option"
  | TokenizerOption "tokenizer option"
  | Comparator "value \<Rightarrow> value \<Rightarrow> bool"
  | MaxIterations int

record grammar =
  START :: string
  rules :: "string \<rightharpoonup> addr list"
  defaults :: options

subsection \<open>The default comparator\<close>

fun isObject :: "value \<Rightarrow> bool" where
  "isObject (Arr xs) = True"
| "isObject Flag = True"
| "isObject v = False"

fun isArray :: "value \<Rightarrow> bool" where
  "isArray (Arr xs) = True"
| "isArray v = False"

text \<open>
  \<open>sameJSON\<close>: the keys of an array are its indices, so two arrays have the same keys
  when they have the same length; the flag object has no keys.
\<close>

fun sameJSON :: "value \<Rightarrow> value \<Rightarrow> bool"
  and sameJSONevery :: "value list \<Rightarrow> value list \<Rightarrow> bool" where
  "sameJSON x y =
     (if isObject x \<noteq> isObject y then False
      else if isArray x \<noteq> isArray y then False
      else if \<not> isObject x then x = y
      else (case (x, y) of
              (Arr xs, Arr ys) \<Rightarrow> length xs = length ys \<and> sameJSONevery xs ys
            | _ \<Rightarrow> True))"
| "sameJSONevery (x # xs) (y # ys) = (sameJSON x y \<and> sameJSONevery xs ys)"
| "sameJSONevery xs ys = True"

subsection \<open>Constructor, setOption, addRule\<close>

definition Grammar :: "string \<Rightarrow> grammar" where
  "Grammar start =
     \<lparr> START = start,
       rules = Map.empty,
       defaults = \<lparr> addCategories = True,
                    collapseBranches = False,
                    showDebuggingOutput = False,
                    expressionBuilder = None,
                    tokenizer = None,
                    comparator = sameJSON,
                    maxIterations = -1 \<rparr> \<rparr>"

fun assignSetting :: "options \<Rightarrow> setting \<Rightarrow> options" where
  "assignSetting opts (AddCategories b) = opts\<lparr> addCategories := b \<rparr>"
| "assignSetting opts (CollapseBranches b) = opts\<lparr> collapseBranches := b \<rparr>"
| "assignSetting opts (ShowDebuggingOutput b) = opts\<lparr> showDebuggingOutput := b \<rparr>"
| "assignSetting opts (ExpressionBuilder f) = opts\<lparr> expressionBuilder := f \<rparr>"
| "assignSetting opts (TokenizerOption t) = opts\<lparr> tokenizer := t \<rparr>"
| "assignSetting opts (Comparator c) = opts\<lparr> comparator := c \<rparr>"
| "assignSetting opts (MaxIterations n) = opts\<lparr> maxIterations := n \<rparr>"

definition setOption :: "grammar \<Rightarrow> setting \<Rightarrow> grammar" where
  "setOption G s = G\<lparr> defaults := assignSetting (defaults G) s \<rparr>"

text \<open>\<open>Object.assign( target, options )\<close> copies every property of \<open>options\<close>.\<close>

definition assign :: "options \<Rightarrow> setting list \<Rightarrow> options" where
  "assign target settings = foldl assignSetting target settings"

text \<open>The three forms of a sequence passed to \<open>addRule\<close>.\<close>

datatype sequence =
    SeqRegExp regexp
  | SeqString string
  | SeqArray addr

text \<open>\<open>split( ' ' )\<close>.\<close>

fun splitSpaces :: "string \<Rightarrow> string list" where
  "splitSpaces [] = [[]]"
| "splitSpaces (c # cs) =
     (if c = CHR '' '' then [] # splitSpaces cs
      else (case splitSpaces cs of
              [] \<Rightarrow> [[c]]
            | w # ws \<Rightarrow> (c # w) # ws))"

text \<open>\<open>new RegExp( `^${entry.source}$` )\<close> for a regular expression entry.\<close>

fun anchor :: "entry \<Rightarrow> entry" where
  "anchor (Terminal r) = Terminal (RegExp (''^'' @ source r @ ''$'') [])"
| "anchor (Nonterminal n) = Nonterminal n"

text \<open>
  \<open>this.rules\<close> is a plain object, so the names of the members of
  \<open>Object.prototype\<close> are never missing from it: for such a category name
  \<open>this.rules[categoryName]\<close> is no array and \<open>push\<close> raises a \<open>TypeError\<close>.
\<close>

definition objectPrototypeKeys :: "string list" where
  "objectPrototypeKeys =
     [''constructor'', ''__proto__'', ''hasOwnProperty'', ''isPrototypeOf'',
      ''propertyIsEnumerable'', ''toLocaleString'', ''toString'', ''valueOf'',
      ''__defineGetter__'', ''__defineSetter__'', ''__lookupGetter__'',
      ''__lookupSetter__'']"

text \<open>
  The body of \<open>sequences.forEach\<close> for one sequence. The store and the grammar are
  returned also when the call raises, as they are left behind.
\<close>

definition addSequence ::
  "string \<Rightarrow> heap \<times> grammar \<Rightarrow> sequence \<Rightarrow> (heap \<times> grammar) \<times> error option" where
  "addSequence categoryName hG sequence =
     (let h = fst hG; G = snd hG;
          (h1, a) = (case sequence of
                       SeqRegExp r \<Rightarrow> (h @ [[Terminal r]], length h)
                     | SeqString s \<Rightarrow> (h @ [map Nonterminal (splitSpaces s)], length h)
                     | SeqArray a \<Rightarrow> (h, a));
          h2 = h1[a := map anchor (h1 ! a)]
      in if categoryName \<in> set objectPrototypeKeys then ((h2, G), Some TypeError)
         else ((h2, G\<lparr> rules := (rules G)(categoryName \<mapsto>
                   (case rules G categoryName of None \<Rightarrow> [] | Some as \<Rightarrow> as) @ [a]) \<rparr>),
               None))"

fun addRule ::
  "heap \<times> grammar \<Rightarrow> string \<Rightarrow> sequence list \<Rightarrow> (heap \<times> grammar) \<times> error option" where
  "addRule hG categoryName [] = (hG, None)"
| "addRule hG categoryName (sequence # sequences) =
     (case addSequence categoryName hG sequence of
        (hG', Some e) \<Rightarrow> (hG', Some e)
      | (hG', None) \<Rightarrow> addRule hG' categoryName sequences)"


text \<open>The right-hand sides stored under a name: \<open>this.rules[next]\<close>.\<close>

definition rulesOf :: "heap \<Rightarrow> grammar \<Rightarrow> string \<rightharpoonup> entry list list" where
  "rulesOf h G name = map_option (map (\<lambda>a. h ! a)) (rules G name)"

section \<open>Earley states\<close>

record state =
  lhs :: string
  rhs :: "entry list"
  pos :: nat
  ori :: nat
  got :: "value list"

definition getNext :: "state \<Rightarrow> entry option" where
  "getNext st = (if pos st < length (rhs st) then Some (rhs st ! pos st) else None)"

definition copyState :: "state \<Rightarrow> state" where
  "copyState st =
     \<lparr> lhs = lhs st, rhs = rhs st, pos = pos st, ori = ori st, got = got st \<rparr>"

text \<open>
  The comparison of one pair of entries in \<open>equalArrays\<close>. When the first entry is a
  string, \<open>entry1 != entry2\<close> is JavaScript's loose comparison, which converts a
  regular expression on the right to its \<open>toString\<close>.
\<close>

fun equalEntries :: "entry \<Rightarrow> entry \<Rightarrow> bool" where
  "equalEntries (Terminal r1) (Terminal r2) = (source r1 = source r2)"
| "equalEntries (Terminal r1) (Nonterminal n2) = False"
| "equalEntries (Nonterminal n1) (Nonterminal n2) = (n1 = n2)"
| "equalEntries (Nonterminal n1) (Terminal r2) = (n1 = toString r2)"

fun equalArraysLoop :: "entry list \<Rightarrow> entry list \<Rightarrow> bool" where
  "equalArraysLoop (entry1 # array1) (entry2 # array2) =
     (if equalEntries entry1 entry2 then equalArraysLoop array1 array2 else False)"
| "equalArraysLoop array1 array2 = True"

definition equalArrays :: "entry list \<Rightarrow> entry list \<Rightarrow> bool" where
  "equalArrays array1 array2 =
     (if length array1 \<noteq> length array2 then False else equalArraysLoop array1 array2)"

text \<open>
  \<open>getNext( s ) == state.lhs\<close> in the completer: \<open>null\<close> equals no string, a string
  equals the same string, a regular expression is converted by \<open>toString\<close>.
\<close>

fun nextIs :: "entry option \<Rightarrow> string \<Rightarrow> bool" where
  "nextIs None name = False"
| "nextIs (Some (Nonterminal n)) name = (n = name)"
| "nextIs (Some (Terminal r)) name = (toString r = name)"

section \<open>The parsing loop\<close>

subsection \<open>Completer\<close>

text \<open>The subtree the completer builds from a finished state.\<close>

definition subtree :: "options \<Rightarrow> state \<Rightarrow> value" where
  "subtree opts st =
     (let got0 = got st;
          got1 = (if addCategories opts then Str (lhs st) # got0 else got0);
          got2 = (if expressionBuilder opts \<noteq> None then Flag # got1 else got1)
      in if collapseBranches opts \<and> length got2 = 1 then hd got2 else Arr got2)"

definition advance :: "state \<Rightarrow> value \<Rightarrow> state" where
  "advance s v = (copyState s)\<lparr> pos := pos s + 1, got := got s @ [v] \<rparr>"

text \<open>
  \<open>numIterationsDone++ > options.maxIterations && options.maxIterations > 0\<close>,
  on the value the counter has before the increment.
\<close>

definition limitReached :: "options \<Rightarrow> int \<Rightarrow> bool" where
  "limitReached opts n = (n > maxIterations opts \<and> maxIterations opts > 0)"

text \<open>
  \<open>stateGrid[state.ori].forEach\<close>: the states of the origin set as they were when
  the walk began, the current state set \<open>stateGrid[i]\<close> and the counter.
\<close>

fun completer ::
  "options \<Rightarrow> state \<Rightarrow> state list \<Rightarrow> state list \<times> int \<Rightarrow> error + state list \<times> int" where
  "completer opts st [] (stateSet, n) = Inr (stateSet, n)"
| "completer opts st (s # ss) (stateSet, n) =
     (if nextIs (getNext s) (lhs st)
      then (if limitReached opts n then Inl IterationLimit
            else completer opts st ss (stateSet @ [advance s (subtree opts st)], n + 1))
      else completer opts st ss (stateSet, n))"

subsection \<open>Predictor\<close>

text \<open>The search \<open>for ( let s of stateSet )\<close> for a state already predicted.\<close>

definition found :: "string \<Rightarrow> entry list \<Rightarrow> state list \<Rightarrow> bool" where
  "found next r stateSet =
     list_ex (\<lambda>s. lhs s = next \<and> equalArrays (rhs s) r \<and> pos s = 0) stateSet"

definition predicted :: "string \<Rightarrow> entry list \<Rightarrow> nat \<Rightarrow> state" where
  "predicted next r i = \<lparr> lhs = next, rhs = r, pos = 0, ori = i, got = [] \<rparr>"

fun predictor :: "string \<Rightarrow> nat \<Rightarrow> entry list list \<Rightarrow> state list \<Rightarrow> state list" where
  "predictor next i [] stateSet = stateSet"
| "predictor next i (r # rhss) stateSet =
     predictor next i rhss
       (if found next r stateSet then stateSet else stateSet @ [predicted next r i])"

subsection \<open>One pass of the inner loop\<close>

record config =
  grid :: "state list list"
  loopI :: nat
  loopJ :: nat
  numIterationsDone :: int

text \<open>
  The body of \<open>while ( j < stateSet.length )\<close> for the state at \<open>j\<close> of state set
  \<open>i\<close>: the completer, nothing at all in the last state set, the scanner, or the
  predictor.
\<close>

definition processState ::
  "engine \<Rightarrow> (string \<rightharpoonup> entry list list) \<Rightarrow> options \<Rightarrow> value list \<Rightarrow> config \<Rightarrow>
     error + config" where
  "processState E R opts input c =
     (let i = loopI c; stateSet = grid c ! i; st = stateSet ! loopJ c
      in case getNext st of
           None \<Rightarrow>
             (case completer opts st (grid c ! ori st) (stateSet, numIterationsDone c) of
                Inl e \<Rightarrow> Inl e
              | Inr (stateSet', n') \<Rightarrow>
                  Inr (c\<lparr> grid := (grid c)[i := stateSet'], loopJ := loopJ c + 1,
                          numIterationsDone := n' \<rparr>))
         | Some next \<Rightarrow>
             if i \<ge> length input then Inr (c\<lparr> loopJ := loopJ c + 1 \<rparr>)
             else (case next of
                     Terminal r \<Rightarrow>
                       if test E r (input ! i)
                       then Inr (c\<lparr> grid := (grid c)[i + 1 :=
                                        grid c ! (i + 1) @ [advance st (input ! i)]],
                                   loopJ := loopJ c + 1 \<rparr>)
                       else Inr (c\<lparr> loopJ := loopJ c + 1 \<rparr>)
                   | Nonterminal name \<Rightarrow>
                       (case R name of
                          None \<Rightarrow> Inl (UnknownNonterminal name)
                        | Some rhss \<Rightarrow>
                            if limitReached opts (numIterationsDone c)
                            then Inl IterationLimit
                            else Inr (c\<lparr> grid := (grid c)[i := predictor name i rhss stateSet],
                                        loopJ := loopJ c + 1,
                                        numIterationsDone := numIterationsDone c + 1 \<rparr>))))"

text \<open>
  One step of the nested loops: the next state of the current state set, or the move
  to the next state set when \<open>j\<close> has reached its length.
\<close>

definition step ::
  "engine \<Rightarrow> (string \<rightharpoonup> entry list list) \<Rightarrow> options \<Rightarrow> value list \<Rightarrow> config \<Rightarrow>
     error + config" where
  "step E R opts input c =
     (if loopJ c < length (grid c ! loopI c) then processState E R opts input c
      else Inr (c\<lparr> loopI := loopI c + 1, loopJ := 0 \<rparr>))"

definition finished :: "config \<Rightarrow> bool" where
  "finished c = (loopI c \<ge> length (grid c))"

text \<open>
  The loops need not end (a grammar with a cycle keeps the completer busy), so they
  run on fuel: \<open>None\<close> when it runs out before \<open>stateGrid.forEach\<close> returns.
\<close>

fun mainLoop ::
  "nat \<Rightarrow> engine \<Rightarrow> (string \<rightharpoonup> entry list list) \<Rightarrow> options \<Rightarrow> value list \<Rightarrow> config \<Rightarrow>
     (error + config) option" where
  "mainLoop fuel E R opts input c =
     (if finished c then Some (Inr c)
      else (case fuel of
              0 \<Rightarrow> None
            | Suc fuel' \<Rightarrow>
                (case step E R opts input c of
                   Inl e \<Rightarrow> Some (Inl e)
                 | Inr c' \<Rightarrow> mainLoop fuel' E R opts input c')))"

text \<open>The configuration after a number of steps, for what holds during a parse.\<close>

fun afterSteps ::
  "nat \<Rightarrow> engine \<Rightarrow> (string \<rightharpoonup> entry list list) \<Rightarrow> options \<Rightarrow> value list \<Rightarrow> config \<Rightarrow>
     error + config" where
  "afterSteps 0 E R opts input c = Inr c"
| "afterSteps (Suc k) E R opts input c =
     (if finished c then Inr c
      else (case step E R opts input c of
              Inl e \<Rightarrow> Inl e
            | Inr c' \<Rightarrow> afterSteps k E R opts input c'))"

text \<open>The grid with the synthetic top rule in state set 0.\<close>

definition initial :: "string \<Rightarrow> nat \<Rightarrow> config" where
  "initial start n =
     \<lparr> grid = [\<lparr> lhs = [], rhs = [Nonterminal start], pos = 0, ori = 0, got = [] \<rparr>]
              # replicate n [],
       loopI = 0, loopJ = 0, numIterationsDone = 0 \<rparr>"

section \<open>Results\<close>

text \<open>
  \<open>obj[0] != expressionBuilderFlag\<close> is a loose comparison with an object: another
  object is equal when it is the same object, a string when it is the object's
  conversion to a string.
\<close>

fun isFlag :: "value \<Rightarrow> bool" where
  "isFlag Flag = True"
| "isFlag (Str s) = (s = ''[object Object]'')"
| "isFlag v = False"

text \<open>Whether a string occurs inside another, for \<open>String.prototype.indexOf\<close>.\<close>

fun occursIn :: "string \<Rightarrow> string \<Rightarrow> bool" where
  "occursIn p [] = (p = [])"
| "occursIn p (c # cs) = (take (length p) (c # cs) = p \<or> occursIn p cs)"

text \<open>
  \<open>args.indexOf( undefined ) > -1\<close>. After a branch is collapsed \<open>args\<close> need not be
  an array: a string is searched for the text \<open>undefined\<close>, and a value with no
  \<open>indexOf\<close> raises a \<open>TypeError\<close>.
\<close>

fun hasUndefined :: "value \<Rightarrow> error + bool" where
  "hasUndefined (Arr xs) = Inr (Undefined \<in> set xs)"
| "hasUndefined (Str s) = Inr (occursIn ''undefined'' s)"
| "hasUndefined v = Inl TypeError"

fun recur :: "bool \<Rightarrow> (value \<Rightarrow> value) \<Rightarrow> value \<Rightarrow> error + value"
  and recurMap :: "bool \<Rightarrow> (value \<Rightarrow> value) \<Rightarrow> value list \<Rightarrow> error + value list" where
  "recur collapse builder (Arr (x # xs)) =
     (if \<not> isFlag x then Inr (Arr (x # xs))
      else (case recurMap collapse builder xs of
              Inl e \<Rightarrow> Inl e
            | Inr args \<Rightarrow>
                (let args' = (if length args = 1 \<and> collapse then hd args else Arr args)
                 in case hasUndefined args' of
                      Inl e \<Rightarrow> Inl e
                    | Inr True \<Rightarrow> Inr Undefined
                    | Inr False \<Rightarrow> Inr (builder args'))))"
| "recur collapse builder obj = Inr obj"
| "recurMap collapse builder [] = Inr []"
| "recurMap collapse builder (x # xs) =
     (case recur collapse builder x of
        Inl e \<Rightarrow> Inl e
      | Inr y \<Rightarrow>
          (case recurMap collapse builder xs of
             Inl e \<Rightarrow> Inl e
           | Inr ys \<Rightarrow> Inr (y # ys)))"

text \<open>
  The result a finished top-level state stands for: \<open>got[0]\<close>, rebuilt by the
  expression builder when there is one; \<open>None\<close> when the rebuilt result is falsy and
  the state is passed over.
\<close>

definition candidate :: "options \<Rightarrow> state \<Rightarrow> error + value option" where
  "candidate opts st =
     (let result = (case got st of [] \<Rightarrow> Undefined | g # gs \<Rightarrow> g)
      in case expressionBuilder opts of
           None \<Rightarrow> Inr (Some result)
         | Some builder \<Rightarrow>
             (case recur (collapseBranches opts) builder result of
                Inl e \<Rightarrow> Inl e
              | Inr result' \<Rightarrow> Inr (if truthy result' then Some result' else None)))"

text \<open>The walk over the last state set that collects \<open>results\<close>.\<close>

fun collect :: "options \<Rightarrow> state list \<Rightarrow> value list \<Rightarrow> error + value list" where
  "collect opts [] results = Inr results"
| "collect opts (st # sts) results =
     (if lhs st = [] \<and> getNext st = None
      then (case candidate opts st of
              Inl e \<Rightarrow> Inl e
            | Inr None \<Rightarrow> collect opts sts results
            | Inr (Some result) \<Rightarrow>
                collect opts sts
                  (if list_ex (\<lambda>old. comparator opts old result) results then results
                   else results @ [result]))
      else collect opts sts results)"

text \<open>The results before duplicates are removed, in the order of the walk.\<close>

fun candidates :: "options \<Rightarrow> state list \<Rightarrow> value list" where
  "candidates opts [] = []"
| "candidates opts (st # sts) =
     (if lhs st = [] \<and> getNext st = None
      then (case candidate opts st of
              Inr (Some result) \<Rightarrow> result # candidates opts sts
            | _ \<Rightarrow> candidates opts sts)
      else candidates opts sts)"

text \<open>
  First occurrences, as a specification and not as the walk above: the first element
  is kept, every later element that the comparator, given the kept element first,
  reports equal to it is removed, and so on with what is left.
\<close>

fun firstOccurrences :: "('a \<Rightarrow> 'a \<Rightarrow> bool) \<Rightarrow> 'a list \<Rightarrow> 'a list" where
  "firstOccurrences same [] = []"
| "firstOccurrences same (c # cs) =
     c # firstOccurrences same (filter (\<lambda>d. \<not> same c d) cs)"

section \<open>parse\<close>

text \<open>The input of \<open>parse\<close>: a string or an array of tokens.\<close>

datatype pinput = InputString string | InputArray "value list"

text \<open>
  The tokens the loops run on: the output of the tokenizer for a string when a
  tokenizer is configured (\<open>None\<close> is the tokenizer's \<open>null\<close>), the characters of a
  string otherwise, the elements of an array.
\<close>

definition tokensOf :: "engine \<Rightarrow> options \<Rightarrow> pinput \<Rightarrow> value list option" where
  "tokensOf E opts input =
     (case input of
        InputString s \<Rightarrow>
          (case tokenizer opts of
             Some t \<Rightarrow> tokenize E t s
           | None \<Rightarrow> Some (map (\<lambda>c. Str [c]) s))
      | InputArray xs \<Rightarrow> Some xs)"

text \<open>
  \<open>parse\<close> returns the grammar as it leaves it and what the call produces: \<open>None\<close>
  when the fuel runs out, an exception, or the list of results. Reading \<open>input.length\<close>
  of \<open>null\<close> raises a \<open>TypeError\<close>.
\<close>

definition parse ::
  "nat \<Rightarrow> engine \<Rightarrow> heap \<Rightarrow> grammar \<Rightarrow> pinput \<Rightarrow> setting list \<Rightarrow>
     grammar \<times> (error + value list) option" where
  "parse fuel E h G input settings =
     (let opts = assign (defaults G) settings;
          G' = G\<lparr> defaults := opts \<rparr>
      in (G',
          case tokensOf E opts input of
            None \<Rightarrow> Some (Inl TypeError)
          | Some tokens \<Rightarrow>
              (case mainLoop fuel E (rulesOf h G') opts tokens
                      (initial (START G') (length tokens)) of
                 None \<Rightarrow> None
               | Some (Inl e) \<Rightarrow> Some (Inl e)
               | Some (Inr c) \<Rightarrow> Some (collect opts (last (grid c)) []))))"

text \<open>The last state set when the loops return, which \<open>parse\<close> collects its results from.\<close>

definition finalStates ::
  "nat \<Rightarrow> engine \<Rightarrow> heap \<Rightarrow> grammar \<Rightarrow> pinput \<Rightarrow> setting list \<Rightarrow> state list" where
  "finalStates fuel E h G input settings =
     (let opts = assign (defaults G) settings;
          G' = G\<lparr> defaults := opts \<rparr>
      in case tokensOf E opts input of
           None \<Rightarrow> []
         | Some tokens \<Rightarrow>
             (case mainLoop fuel E (rulesOf h G') opts tokens
                     (initial (START G') (length tokens)) of
                Some (Inr c) \<Rightarrow> last (grid c)
              | _ \<Rightarrow> []))"

section \<open>Predictions already present\<close>

text \<open>
  Two entries are the same when both are regular expressions with the same source or
  both are strings with the same value; two states are the same prediction when
  both have the dot in front, the same left-hand side and right-hand sides of the
  same entries.
\<close>

fun sameEntry :: "entry \<Rightarrow> entry \<Rightarrow> bool" where
  "sameEntry (Terminal r1) (Terminal r2) = (source r1 = source r2)"
| "sameEntry (Nonterminal n1) (Nonterminal n2) = (n1 = n2)"
| "sameEntry e1 e2 = False"

definition samePrediction :: "state \<Rightarrow> state \<Rightarrow> bool" where
  "samePrediction s t =
     (pos s = 0 \<and> pos t = 0 \<and> lhs s = lhs t \<and> list_all2 sameEntry (rhs s) (rhs t))"

definition noDuplicates :: "state list \<Rightarrow> bool" where
  "noDuplicates stateSet = sorted_wrt (\<lambda>s t. \<not> samePrediction s t) stateSet"

definition gridOk :: "state list list \<Rightarrow> bool" where
  "gridOk g = list_all noDuplicates g"

section \<open>Productions already present\<close>

text \<open>
  A production is present at dot zero in a state set when a state of the set has the
  left-hand side, the dot in front, and a right-hand side of the same entries, with
  the equality of entries above.
\<close>

definition present :: "string \<Rightarrow> entry list \<Rightarrow> state list \<Rightarrow> bool" where
  "present name r stateSet =
     list_ex (\<lambda>s. lhs s = name \<and> pos s = 0 \<and> list_all2 sameEntry (rhs s) r) stateSet"

text \<open>
  The pairs of entries that are not the same but that the loose comparison in
  \<open>equalArrays\<close> takes for equal: a string and a regular expression whose \<open>toString\<close>
  is the string. Two arrays hold no such pair when they have none at the same place.
\<close>

fun loose :: "entry \<Rightarrow> entry \<Rightarrow> bool" where
  "loose (Nonterminal n) (Terminal r) = (n = toString r)"
| "loose e1 e2 = False"

definition looseFree :: "entry list \<Rightarrow> entry list \<Rightarrow> bool" where
  "looseFree a b = list_all (\<lambda>(e1, e2). \<not> loose e1 e2) (zip a b)"

text \<open>
  No such pair between the right-hand side of a dot-zero state of the nonterminal in
  the state set, or a production of the nonterminal, and a production of the
  nonterminal.
\<close>

definition noLoosePairs :: "string \<Rightarrow> entry list list \<Rightarrow> state list \<Rightarrow> bool" where
  "noLoosePairs name rhss stateSet =
     list_all (\<lambda>a. list_all (looseFree a) rhss)
       (map rhs (filter (\<lambda>s. lhs s = name \<and> pos s = 0) stateSet) @ rhss)"

section \<open>Grammars that differ in the source of a terminal\<close>










section \<open>Sample engine\<close>

text \<open>
  The examples below run on a fragment of the regular-expression engine. \<open>test\<close>
  covers the patterns that \<open>addRule\<close> stores for a literal text: the text between
  any number of \<open>^\<close> in front and \<open>$\<close> behind, which match a string token equal to the
  text. \<open>exec\<close> covers the patterns that \<open>addType\<close> stores, \<open>^(?:body)\<close>, for a body
  that is a literal text (it matches when the input starts with the text) or one
  character followed by a star (it matches the longest run of the character at the
  start of the input, which may be empty).
\<close>

definition stripAnchors :: "string \<Rightarrow> string" where
  "stripAnchors src =
     rev (dropWhile (\<lambda>c. c = CHR ''$'') (rev (dropWhile (\<lambda>c. c = CHR ''^'') src)))"

definition sampleExec :: "regexp \<Rightarrow> string \<Rightarrow> matchres option" where
  "sampleExec r s =
     (let body = butlast (drop 4 (source r))
      in if take 4 (source r) \<noteq> ''^(?:'' then None
         else if length body = 2 \<and> last body = CHR ''*''
         then Some (Match (takeWhile (\<lambda>c. c = hd body) s) [])
         else if take (length body) s = body then Some (Match body [])
         else None)"

definition sampleTest :: "regexp \<Rightarrow> value \<Rightarrow> bool" where
  "sampleTest r v = (case v of Str s \<Rightarrow> stripAnchors (source r) = s | _ \<Rightarrow> False)"

definition sampleEngine :: engine where
  "sampleEngine = \<lparr> test = sampleTest, exec = sampleExec \<rparr>"

text \<open>
  A grammar with the single rule \<open>S -> /a/\<close>, a tokenizer with the single type \<open>/a/\<close>,
  and an ambiguous grammar \<open>S -> /a/ | A\<close>, \<open>A -> /a/\<close>.
\<close>

definition sampleGrammar :: "heap \<times> grammar" where
  "sampleGrammar = fst (addRule ([], Grammar ''S'') ''S'' [SeqRegExp (RegExp ''a'' [])])"

definition sampleTokenizer :: tokenizer where
  "sampleTokenizer = addType [] (RegExp ''a'' []) identityFormatter"

definition ambiguousGrammar :: "heap \<times> grammar" where
  "ambiguousGrammar =
     fst (addRule (fst (addRule ([], Grammar ''S'') ''S''
                          [SeqRegExp (RegExp ''a'' []), SeqString ''A'']))
            ''A'' [SeqRegExp (RegExp ''a'' [])])"


text \<open>
  The rules of the sample grammar, and the configuration of its parse of the token
  \<open>a\<close> after two steps: \<open>S\<close> is predicted and the terminal is scanned.
\<close>

definition sampleRules :: "string \<rightharpoonup> entry list list" where
  "sampleRules = rulesOf (fst sampleGrammar) (snd sampleGrammar)"

definition afterScan :: config where
  "afterScan =
     \<lparr> grid =
         [[\<lparr> lhs = [], rhs = [Nonterminal ''S''], pos = 0, ori = 0, got = [] \<rparr>,
           \<lparr> lhs = ''S'', rhs = [Terminal (RegExp ''^a$'' [])], pos = 0, ori = 0, got = [] \<rparr>],
          [\<lparr> lhs = ''S'', rhs = [Terminal (RegExp ''^a$'' [])], pos = 1, ori = 0,
              got = [Str ''a''] \<rparr>]],
       loopI = 0, loopJ = 2, numIterationsDone = 1 \<rparr>"

text \<open>
  A grammar with no rule at all. The configuration of the sample parse after one step
  (\<open>S\<close> is predicted), the sample options with \<open>maxIterations : 1\<close>, and a
  configuration whose counter has passed that limit.
\<close>

definition emptyGrammar :: "heap \<times> grammar" where
  "emptyGrammar = ([], Grammar ''S'')"

definition afterPrediction :: config where
  "afterPrediction =
     \<lparr> grid =
         [[\<lparr> lhs = [], rhs = [Nonterminal ''S''], pos = 0, ori = 0, got = [] \<rparr>,
           \<lparr> lhs = ''S'', rhs = [Terminal (RegExp ''^a$'' [])], pos = 0, ori = 0, got = [] \<rparr>],
          []],
       loopI = 0, loopJ = 1, numIterationsDone = 1 \<rparr>"

definition limitOne :: options where
  "limitOne = assign (defaults (snd sampleGrammar)) [MaxIterations 1]"

definition overLimit :: config where
  "overLimit = afterPrediction\<lparr> loopJ := 0, numIterationsDone := 2 \<rparr>"





text \<open>A tokenizer with the types \<open>/a/\<close> and \<open>/b*/\<close>, in this order.\<close>

definition abTokenizer :: tokenizer where
  "abTokenizer =
     addType (addType [] (RegExp ''a'' []) identityFormatter) (RegExp ''b*'' []) identityFormatter"


text \<open>
  A comparator that is not symmetric: it reports the tree \<open>[ 'S', [ 'A', 'a' ] ]\<close>,
  given first, equal to the tree \<open>[ 'S', 'a' ]\<close>, and nothing else.
\<close>

definition oneWay :: "value \<Rightarrow> value \<Rightarrow> bool" where
  "oneWay old new =
     (old = Arr [Str ''S'', Arr [Str ''A'', Str ''a'']] \<and> new = Arr [Str ''S'', Str ''a''])"



text \<open>
  A grammar with the rules \<open>S -> '/^a$/' | /a/\<close>, whose first right-hand side is the
  name of a nonterminal, and the sample parse back at its first state once \<open>S\<close> is
  predicted.
\<close>

definition looseGrammar :: "heap \<times> grammar" where
  "looseGrammar =
     fst (addRule ([], Grammar ''S'') ''S'' [SeqString ''/^a$/'', SeqRegExp (RegExp ''a'' [])])"

definition predictedAgain :: config where
  "predictedAgain = afterPrediction\<lparr> loopJ := 0 \<rparr>"

section \<open>The tokenizer: termination and dropped tokens\<close>

lemma tokenizeBounded_enough:
  "length input \<le> n \<Longrightarrow>
     tokenizeBounded n E tokenTypes input result = Some (tokenizeLoop E tokenTypes input result)"
proof (induction n arbitrary: input result)
  case 0
  then show ?case by simp
next
  case (Suc n)
  show ?case
  proof (cases "tokenizePass E tokenTypes input result")
    case None
    then show ?thesis by simp
  next
    case (Some p)
    obtain input' result' where p: "p = (input', result')" by (cases p)
    with Some have "length input' < length input" by (simp add: tokenizePass_shorter)
    with Suc.prems have "length input' \<le> n" by simp
    from Suc.IH [OF this] Some p show ?thesis by simp
  qed
qed

lemma afterPasses_tokenizeLoop:
  "afterPasses k E tokenTypes (s, r0) = Some (input, result) \<Longrightarrow>
     tokenizeLoop E tokenTypes s r0 = tokenizeLoop E tokenTypes input result"
proof (induction k arbitrary: s r0)
  case 0
  then show ?case by simp
next
  case (Suc k)
  show ?case
  proof (cases "length s > 0")
    case False
    with Suc.prems show ?thesis by simp
  next
    case True
    show ?thesis
    proof (cases "tokenizePass E tokenTypes s r0")
      case None
      with True Suc.prems show ?thesis by simp
    next
      case (Some p)
      obtain s' r' where p: "p = (s', r')" by (cases p)
      from Suc.prems True Some p
      have "afterPasses k E tokenTypes (s', r') = Some (input, result)" by simp
      from Suc.IH [OF this] have
        "tokenizeLoop E tokenTypes s' r' = tokenizeLoop E tokenTypes input result" .
      moreover from True Some p
      have "tokenizeLoop E tokenTypes s r0 = tokenizeLoop E tokenTypes s' r'"
        by (subst tokenizeLoop.simps) simp
      ultimately show ?thesis by simp
    qed
  qed
qed

lemma empty_match_fails:
  assumes "input \<noteq> []" and "firstMatch E tokenTypes input = Some (ty, m)" and "whole m = []"
  shows "tokenizePass E tokenTypes input result = None"
    and "tokenizeLoop E tokenTypes input result = None"
proof -
  from assms show p: "tokenizePass E tokenTypes input result = None"
    by (simp add: tokenizePass_def)
  with assms show "tokenizeLoop E tokenTypes input result = None"
    by (subst tokenizeLoop.simps) simp
qed

lemma sample_pass_a:
  "tokenizePass sampleEngine (addType [] (RegExp ''a'' []) identityFormatter) ''ab'' []
     = Some (''b'', [Str ''a''])"
  by (simp add: tokenizePass_def addType_def sampleEngine_def sampleExec_def
      identityFormatter_def emit_def)

lemma sample_match_empty:
  "firstMatch sampleEngine (addType [] (RegExp ''b*'' []) identityFormatter) ''a''
     = Some (\<lparr> regexp = RegExp ''^(?:b*)'' [], formatter = identityFormatter \<rparr>, Match [] [])"
  by (simp add: addType_def sampleEngine_def sampleExec_def)

lemma sample_after_one_pass:
  "afterPasses 1 sampleEngine abTokenizer (''ac'', []) = Some (''c'', [Str ''a''])"
  by (simp add: abTokenizer_def tokenizePass_def addType_def sampleEngine_def sampleExec_def
      identityFormatter_def emit_def)

lemma sample_match_empty_later:
  "firstMatch sampleEngine abTokenizer ''c''
     = Some (\<lparr> regexp = RegExp ''^(?:b*)'' [], formatter = identityFormatter \<rparr>, Match [] [])"
  by (simp add: abTokenizer_def addType_def sampleEngine_def sampleExec_def)

text \<open>
  C9. \<open>tokenize\<close> terminates on every input: it is defined by recursion on the length
  of the remaining input, and as many passes of its loop as the input has characters
  always suffice, whatever the tokens collected so far. Each pass that does not return
  the failure value leaves a strictly shorter input. When the first token type that
  matches the remaining input matches the empty string, the pass returns the failure
  value, whatever the tokens collected so far; so \<open>tokenize\<close> returns the failure value
  as soon as this happens at a position that its loop reaches, be it the start of the
  input or the input left after any number of passes.
\<close>

theorem tokenize_terminates:
  "(tokenizePass E tokenTypes input result = Some (input', result') \<longrightarrow>
      length input' < length input)
   \<and> tokenizeBounded (length input) E tokenTypes input result
       = Some (tokenizeLoop E tokenTypes input result)
   \<and> tokenizeBounded (length input) E tokenTypes input [] = Some (tokenize E tokenTypes input)
   \<and> (input \<noteq> [] \<and> firstMatch E tokenTypes input = Some (ty, m) \<and> whole m = [] \<longrightarrow>
        tokenizePass E tokenTypes input result = None
        \<and> tokenizeLoop E tokenTypes input result = None
        \<and> tokenize E tokenTypes input = None)
   \<and> (afterPasses k E tokenTypes (s, []) = Some (input, result)
        \<and> input \<noteq> [] \<and> firstMatch E tokenTypes input = Some (ty, m) \<and> whole m = [] \<longrightarrow>
        tokenize E tokenTypes s = None)"
proof (intro conjI impI)
  assume "tokenizePass E tokenTypes input result = Some (input', result')"
  then show "length input' < length input" by (rule tokenizePass_shorter)
next
  show "tokenizeBounded (length input) E tokenTypes input result
          = Some (tokenizeLoop E tokenTypes input result)"
    by (rule tokenizeBounded_enough) simp
next
  show "tokenizeBounded (length input) E tokenTypes input [] = Some (tokenize E tokenTypes input)"
    unfolding tokenize_def by (rule tokenizeBounded_enough) simp
next
  assume a: "input \<noteq> [] \<and> firstMatch E tokenTypes input = Some (ty, m) \<and> whole m = []"
  then show "tokenizePass E tokenTypes input result = None"
    by (simp add: empty_match_fails)
next
  assume a: "input \<noteq> [] \<and> firstMatch E tokenTypes input = Some (ty, m) \<and> whole m = []"
  then show "tokenizeLoop E tokenTypes input result = None"
    by (simp add: empty_match_fails)
next
  assume a: "input \<noteq> [] \<and> firstMatch E tokenTypes input = Some (ty, m) \<and> whole m = []"
  then show "tokenize E tokenTypes input = None"
    unfolding tokenize_def by (simp add: empty_match_fails)
next
  assume a: "afterPasses k E tokenTypes (s, []) = Some (input, result)
        \<and> input \<noteq> [] \<and> firstMatch E tokenTypes input = Some (ty, m) \<and> whole m = []"
  then have "afterPasses k E tokenTypes (s, []) = Some (input, result)" by (rule conjunct1)
  then have "tokenizeLoop E tokenTypes s [] = tokenizeLoop E tokenTypes input result"
    by (rule afterPasses_tokenizeLoop)
  moreover from a have "tokenizeLoop E tokenTypes input result = None"
    by (simp add: empty_match_fails del: tokenizeLoop.simps)
  ultimately show "tokenize E tokenTypes s = None"
    unfolding tokenize_def by (simp del: tokenizeLoop.simps)
qed

theorem tokenize_terminates_witness:
  "tokenizePass sampleEngine (addType [] (RegExp ''a'' []) identityFormatter) ''ab'' []
     = Some (''b'', [Str ''a''])
   \<and> length ''b'' < length ''ab''
   \<and> firstMatch sampleEngine (addType [] (RegExp ''b*'' []) identityFormatter) ''a''
     = Some (\<lparr> regexp = RegExp ''^(?:b*)'' [], formatter = identityFormatter \<rparr>, Match [] [])
   \<and> tokenize sampleEngine (addType [] (RegExp ''b*'' []) identityFormatter) ''a'' = None
   \<and> afterPasses 1 sampleEngine abTokenizer (''ac'', []) = Some (''c'', [Str ''a''])
   \<and> firstMatch sampleEngine abTokenizer ''c''
     = Some (\<lparr> regexp = RegExp ''^(?:b*)'' [], formatter = identityFormatter \<rparr>, Match [] [])
   \<and> tokenize sampleEngine abTokenizer ''ac'' = None"
  using tokenize_terminates [of sampleEngine "addType [] (RegExp ''a'' []) identityFormatter"
          "''ab''" "[]" "''b''" "[Str ''a'']"]
        tokenize_terminates [of sampleEngine "addType [] (RegExp ''b*'' []) identityFormatter"
          "''a''" "[]" "[]" "[]"
          "\<lparr> regexp = RegExp ''^(?:b*)'' [], formatter = identityFormatter \<rparr>" "Match [] []"]
        tokenize_terminates [where E = sampleEngine and tokenTypes = abTokenizer
          and input = "''c''" and result = "[Str ''a'']" and k = 1 and s = "''ac''"
          and ty = "\<lparr> regexp = RegExp ''^(?:b*)'' [], formatter = identityFormatter \<rparr>"
          and m = "Match [] []"]
        sample_pass_a sample_match_empty sample_after_one_pass sample_match_empty_later
  by simp

text \<open>
  C4. A token is omitted exactly when the formatter returns the drop signal \<open>null\<close>;
  any other value, the number 0 and the empty string among them, is appended. The code
  tests the truthiness of the formatter's value instead: on the input \<open>a\<close>, a type
  \<open>/a/\<close> whose formatter returns 0, or the empty string, yields no token at all.
\<close>

theorem tokenize_drops_falsy:
  "tokenize sampleEngine (addType [] (RegExp ''a'' []) (Fn (\<lambda>text m. Num 0))) ''a'' = Some []
   \<and> tokenize sampleEngine (addType [] (RegExp ''a'' []) (Fn (\<lambda>text m. Str []))) ''a'' = Some []
   \<and> tokenize sampleEngine (addType [] (RegExp ''a'' []) (Fn (\<lambda>text m. Null))) ''a'' = Some []
   \<and> tokenize sampleEngine (addType [] (RegExp ''a'' []) (Fn (\<lambda>text m. Str text))) ''a''
       = Some [Str ''a'']"
  by (simp add: tokenize_def tokenizePass_def addType_def sampleEngine_def sampleExec_def
      emit_def)

section \<open>Failures and effects of parse\<close>

lemma sample_tokenize_fails: "tokenize sampleEngine sampleTokenizer ''b'' = None"
  by code_simp

lemma parse_tokenizer_failure:
  "tokenizer (assign (defaults G) settings) = Some t \<Longrightarrow> tokenize E t s = None \<Longrightarrow>
     snd (parse fuel E h G (InputString s) settings) = Some (Inl TypeError)"
  by (simp add: parse_def tokensOf_def Let_def)

text \<open>
  C1. When the tokenizer fails on a string input, \<open>parse\<close> returns the empty result
  sequence. The code hands the tokenizer's \<open>null\<close> to \<open>input.length\<close>, which raises
  a \<open>TypeError\<close>: with the tokenizer of the single type \<open>/a/\<close> configured, the input
  \<open>b\<close> makes \<open>parse\<close> raise, whatever the fuel.
\<close>

theorem parse_raises_on_tokenizer_failure:
  "tokenize sampleEngine sampleTokenizer ''b'' = None
   \<and> snd (parse fuel sampleEngine (fst sampleGrammar) (snd sampleGrammar) (InputString ''b'')
            [TokenizerOption (Some sampleTokenizer)]) = Some (Inl TypeError)"
  using sample_tokenize_fails
    parse_tokenizer_failure [of "snd sampleGrammar" "[TokenizerOption (Some sampleTokenizer)]"
      sampleTokenizer sampleEngine "''b''" fuel "fst sampleGrammar"]
  by (simp add: assign_def)

text \<open>
  C2. \<open>parse\<close> leaves the stored default options of the grammar unchanged, so that
  options passed to one call have no effect on a later call that does not pass them.
  The code assigns the passed options into \<open>this.defaults\<close> itself: after a call with
  \<open>addCategories : false\<close> the default is false, and the next call, with no options,
  returns a tree without categories where the fresh grammar returns one with them.
\<close>

theorem parse_overwrites_defaults:
  "addCategories (defaults (snd sampleGrammar)) = True
   \<and> snd (parse 20 sampleEngine (fst sampleGrammar) (snd sampleGrammar)
            (InputArray [Str ''a'']) [])
       = Some (Inr [Arr [Str ''S'', Str ''a'']])
   \<and> addCategories (defaults (fst (parse 20 sampleEngine (fst sampleGrammar)
            (snd sampleGrammar) (InputArray [Str ''a'']) [AddCategories False]))) = False
   \<and> snd (parse 20 sampleEngine (fst sampleGrammar)
            (fst (parse 20 sampleEngine (fst sampleGrammar) (snd sampleGrammar)
                    (InputArray [Str ''a'']) [AddCategories False]))
            (InputArray [Str ''a'']) [])
       = Some (Inr [Arr [Str ''a'']])"
  by code_simp

section \<open>Duplicates among the results\<close>

lemma collect_inv:
  "collect opts sts acc = Inr rs \<Longrightarrow> sorted_wrt (\<lambda>old new. \<not> comparator opts old new) acc \<Longrightarrow>
     sorted_wrt (\<lambda>old new. \<not> comparator opts old new) rs"
proof (induction sts arbitrary: acc)
  case Nil
  then show ?case by simp
next
  case (Cons st sts)
  show ?case
  proof (cases "lhs st = [] \<and> getNext st = None")
    case False
    with Cons.prems have "collect opts sts acc = Inr rs" by auto
    from Cons.IH [OF this Cons.prems(2)] show ?thesis .
  next
    case top: True
    show ?thesis
    proof (cases "candidate opts st")
      case (Inl e)
      with top Cons.prems show ?thesis by simp
    next
      case (Inr r)
      show ?thesis
      proof (cases r)
        case None
        with Inr top Cons.prems have "collect opts sts acc = Inr rs" by simp
        from Cons.IH [OF this Cons.prems(2)] show ?thesis .
      next
        case (Some result)
        let ?acc = "if list_ex (\<lambda>old. comparator opts old result) acc then acc
                    else acc @ [result]"
        from Some Inr top Cons.prems have c: "collect opts sts ?acc = Inr rs" by simp
        have "sorted_wrt (\<lambda>old new. \<not> comparator opts old new) ?acc"
          using Cons.prems(2)
          by (auto simp: sorted_wrt_append list_ex_iff)
        from Cons.IH [OF c this] show ?thesis .
      qed
    qed
  qed
qed

lemma collect_subseq:
  "collect opts sts acc = Inr rs \<Longrightarrow> \<exists>new. rs = acc @ new \<and> subseq new (candidates opts sts)"
proof (induction sts arbitrary: acc)
  case Nil
  then show ?case by simp
next
  case (Cons st sts)
  show ?case
  proof (cases "lhs st = [] \<and> getNext st = None")
    case False
    with Cons.prems have "collect opts sts acc = Inr rs" by auto
    from Cons.IH [OF this] False show ?thesis by auto
  next
    case top: True
    show ?thesis
    proof (cases "candidate opts st")
      case (Inl e)
      with top Cons.prems show ?thesis by simp
    next
      case (Inr r)
      show ?thesis
      proof (cases r)
        case None
        with Inr top Cons.prems have "collect opts sts acc = Inr rs" by simp
        from Cons.IH [OF this] None Inr top show ?thesis by auto
      next
        case (Some result)
        let ?acc = "if list_ex (\<lambda>old. comparator opts old result) acc then acc
                    else acc @ [result]"
        from Some Inr top Cons.prems have c: "collect opts sts ?acc = Inr rs" by simp
        from Cons.IH [OF c] obtain new where
          n: "rs = ?acc @ new" "subseq new (candidates opts sts)" by blast
        have cs: "candidates opts (st # sts) = result # candidates opts sts"
          using top Inr Some by simp
        show ?thesis
        proof (cases "list_ex (\<lambda>old. comparator opts old result) acc")
          case True
          with n cs show ?thesis by (auto intro: subseq_Cons')
        next
          case False
          with n have "rs = acc @ (result # new)" by simp
          moreover have "subseq (result # new) (candidates opts (st # sts))"
            using n(2) cs by simp
          ultimately show ?thesis by blast
        qed
      qed
    qed
  qed
qed

lemma collect_covers:
  "collect opts sts acc = Inr rs \<Longrightarrow>
     set acc \<subseteq> set rs \<and>
     (\<forall>c \<in> set (candidates opts sts). c \<in> set rs \<or> (\<exists>r \<in> set rs. comparator opts r c))"
proof (induction sts arbitrary: acc)
  case Nil
  then show ?case by simp
next
  case (Cons st sts)
  show ?case
  proof (cases "lhs st = [] \<and> getNext st = None")
    case False
    with Cons.prems have "collect opts sts acc = Inr rs" by auto
    from Cons.IH [OF this] False show ?thesis by auto
  next
    case top: True
    show ?thesis
    proof (cases "candidate opts st")
      case (Inl e)
      with top Cons.prems show ?thesis by simp
    next
      case (Inr r)
      show ?thesis
      proof (cases r)
        case None
        with Inr top Cons.prems have "collect opts sts acc = Inr rs" by simp
        from Cons.IH [OF this] None Inr top show ?thesis by auto
      next
        case (Some result)
        let ?acc = "if list_ex (\<lambda>old. comparator opts old result) acc then acc
                    else acc @ [result]"
        from Some Inr top Cons.prems have c: "collect opts sts ?acc = Inr rs" by simp
        note ih = Cons.IH [OF c]
        have cs: "candidates opts (st # sts) = result # candidates opts sts"
          using top Inr Some by simp
        have "set acc \<subseteq> set rs" using ih by (auto split: if_splits)
        moreover have "result \<in> set rs \<or> (\<exists>r \<in> set rs. comparator opts r result)"
          using ih by (auto simp: list_ex_iff split: if_splits)
        ultimately show ?thesis using ih cs by auto
      qed
    qed
  qed
qed


lemma parse_collect:
  assumes "parse fuel E h G input settings = (G', Some (Inr rs))"
  shows "G' = G\<lparr> defaults := assign (defaults G) settings \<rparr>
         \<and> collect (defaults G') (finalStates fuel E h G input settings) [] = Inr rs"
proof -
  let ?opts = "assign (defaults G) settings"
  from assms have g: "G' = G\<lparr> defaults := ?opts \<rparr>"
    by (simp add: parse_def Let_def)
  from assms obtain tokens where t: "tokensOf E ?opts input = Some tokens"
    by (cases "tokensOf E ?opts input") (auto simp: parse_def Let_def)
  from assms t obtain c where
    m: "mainLoop fuel E (rulesOf h (G\<lparr> defaults := ?opts \<rparr>)) ?opts tokens
          (initial (START (G\<lparr> defaults := ?opts \<rparr>)) (length tokens)) = Some (Inr c)"
    and r: "collect ?opts (last (grid c)) [] = Inr rs"
    by (auto simp: parse_def Let_def split: option.splits sum.splits)
  from t m have f: "finalStates fuel E h G input settings = last (grid c)"
    by (simp add: finalStates_def Let_def)
  from g r show ?thesis unfolding f by simp
qed

lemma collect_firstOccurrences:
  "collect opts sts acc = Inr rs \<Longrightarrow>
     rs = acc @ firstOccurrences (comparator opts)
                  (filter (\<lambda>d. \<not> list_ex (\<lambda>old. comparator opts old d) acc)
                     (candidates opts sts))"
proof (induction sts arbitrary: acc)
  case Nil
  then show ?case by simp
next
  case (Cons st sts)
  show ?case
  proof (cases "lhs st = [] \<and> getNext st = None")
    case False
    with Cons.prems have "collect opts sts acc = Inr rs" by auto
    from Cons.IH [OF this] False show ?thesis by auto
  next
    case top: True
    show ?thesis
    proof (cases "candidate opts st")
      case (Inl e)
      with top Cons.prems show ?thesis by simp
    next
      case (Inr r)
      show ?thesis
      proof (cases r)
        case None
        with Inr top Cons.prems have "collect opts sts acc = Inr rs" by simp
        from Cons.IH [OF this] None Inr top show ?thesis by auto
      next
        case (Some result)
        let ?acc = "if list_ex (\<lambda>old. comparator opts old result) acc then acc
                    else acc @ [result]"
        from Some Inr top Cons.prems have c: "collect opts sts ?acc = Inr rs" by simp
        note ih = Cons.IH [OF c]
        have cs: "candidates opts (st # sts) = result # candidates opts sts"
          using top Inr Some by simp
        show ?thesis
        proof (cases "list_ex (\<lambda>old. comparator opts old result) acc")
          case True
          with ih cs show ?thesis by simp
        next
          case False
          have f: "filter (\<lambda>d. \<not> list_ex (\<lambda>old. comparator opts old d) (acc @ [result]))
                     (candidates opts sts)
                   = filter (\<lambda>d. \<not> comparator opts result d)
                       (filter (\<lambda>d. \<not> list_ex (\<lambda>old. comparator opts old d) acc)
                          (candidates opts sts))"
            by (auto simp: list_ex_iff intro: filter_cong)
          from False ih have
            "rs = (acc @ [result]) @ firstOccurrences (comparator opts)
                    (filter (\<lambda>d. \<not> list_ex (\<lambda>old. comparator opts old d) (acc @ [result]))
                       (candidates opts sts))"
            by simp
          with False cs show ?thesis unfolding f by simp
        qed
      qed
    qed
  qed
qed

text \<open>
  C7. The sequence \<open>parse\<close> returns is the list of first occurrences among the
  candidate roots of the last state set, in their order: a root is left out exactly
  when the comparator, called as \<open>comparator( old, result )\<close> with a root kept before
  it, reports the two equal. So no tree of the sequence is reported equal to a tree
  before it when the earlier tree is given first, and for a symmetric comparator no
  two trees at different places are equal; the results are a subsequence of the
  candidates, and every candidate is among the results or equal to one of them. For
  a comparator that is not symmetric the sequence may hold two trees that the
  comparator reports equal when the later one is given first.
\<close>

theorem parse_results_distinct:
  assumes "parse fuel E h G input settings = (G', Some (Inr rs))"
  shows "rs = firstOccurrences (comparator (defaults G'))
                (candidates (defaults G') (finalStates fuel E h G input settings))
       \<and> (\<forall>i j. i < j \<and> j < length rs \<longrightarrow> \<not> comparator (defaults G') (rs ! i) (rs ! j))
       \<and> ((\<forall>x y. comparator (defaults G') x y = comparator (defaults G') y x) \<longrightarrow>
            (\<forall>i j. i < length rs \<and> j < length rs \<and> i \<noteq> j \<longrightarrow>
               \<not> comparator (defaults G') (rs ! i) (rs ! j)))
       \<and> subseq rs (candidates (defaults G') (finalStates fuel E h G input settings))
       \<and> (\<forall>c \<in> set (candidates (defaults G') (finalStates fuel E h G input settings)).
            c \<in> set rs \<or> (\<exists>r \<in> set rs. comparator (defaults G') r c))"
proof -
  let ?cmp = "comparator (defaults G')"
  from parse_collect [OF assms] have
    c: "collect (defaults G') (finalStates fuel E h G input settings) [] = Inr rs"
    by (rule conjunct2)
  from collect_firstOccurrences [OF c] have
    first: "rs = firstOccurrences ?cmp
                   (candidates (defaults G') (finalStates fuel E h G input settings))"
    by simp
  from collect_inv [OF c] have "sorted_wrt (\<lambda>old new. \<not> ?cmp old new) rs" by simp
  then have ordered: "\<forall>i j. i < j \<and> j < length rs \<longrightarrow> \<not> ?cmp (rs ! i) (rs ! j)"
    by (simp add: sorted_wrt_iff_nth_less)
  have symmetric: "(\<forall>x y. ?cmp x y = ?cmp y x) \<longrightarrow>
            (\<forall>i j. i < length rs \<and> j < length rs \<and> i \<noteq> j \<longrightarrow> \<not> ?cmp (rs ! i) (rs ! j))"
  proof (intro impI allI)
    fix i j
    assume s: "\<forall>x y. ?cmp x y = ?cmp y x" and ij: "i < length rs \<and> j < length rs \<and> i \<noteq> j"
    show "\<not> ?cmp (rs ! i) (rs ! j)"
    proof (cases "i < j")
      case True
      with ij ordered show ?thesis by blast
    next
      case False
      with ij have "j < i \<and> i < length rs" by simp
      with ordered have "\<not> ?cmp (rs ! j) (rs ! i)" by blast
      with s show ?thesis by blast
    qed
  qed
  from collect_subseq [OF c] have
    sub: "subseq rs (candidates (defaults G') (finalStates fuel E h G input settings))"
    by simp
  from collect_covers [OF c] have
    cov: "\<forall>c \<in> set (candidates (defaults G') (finalStates fuel E h G input settings)).
            c \<in> set rs \<or> (\<exists>r \<in> set rs. ?cmp r c)" by simp
  from first ordered symmetric sub cov show ?thesis by blast
qed

lemma collapsed_parse:
  "snd (parse 30 sampleEngine (fst ambiguousGrammar) (snd ambiguousGrammar)
          (InputArray [Str ''a'']) [AddCategories False, CollapseBranches True])
   = Some (Inr [Str ''a''])"
  by code_simp

lemma collapsed_candidates:
  "candidates
     (assign (defaults (snd ambiguousGrammar)) [AddCategories False, CollapseBranches True])
     (finalStates 30 sampleEngine (fst ambiguousGrammar) (snd ambiguousGrammar)
        (InputArray [Str ''a'']) [AddCategories False, CollapseBranches True])
   = [Str ''a'', Str ''a'']"
  by code_simp

theorem parse_results_distinct_witness:
  "snd (parse 30 sampleEngine (fst ambiguousGrammar) (snd ambiguousGrammar)
          (InputArray [Str ''a'']) [AddCategories False, CollapseBranches True])
     = Some (Inr [Str ''a''])
   \<and> candidates
       (assign (defaults (snd ambiguousGrammar)) [AddCategories False, CollapseBranches True])
       (finalStates 30 sampleEngine (fst ambiguousGrammar) (snd ambiguousGrammar)
          (InputArray [Str ''a'']) [AddCategories False, CollapseBranches True])
     = [Str ''a'', Str ''a'']
   \<and> [Str ''a''] =
       firstOccurrences
         (comparator (assign (defaults (snd ambiguousGrammar))
                        [AddCategories False, CollapseBranches True]))
         [Str ''a'', Str ''a'']"
proof -
  let ?s = "[AddCategories False, CollapseBranches True]"
  let ?p = "parse 30 sampleEngine (fst ambiguousGrammar) (snd ambiguousGrammar)
              (InputArray [Str ''a'']) ?s"
  have e: "?p = (fst ?p, Some (Inr [Str ''a'']))"
    using collapsed_parse by (simp add: prod_eq_iff)
  have d: "defaults (fst ?p) = assign (defaults (snd ambiguousGrammar)) ?s"
    by (simp add: parse_def Let_def)
  from parse_results_distinct [OF e] have
    "[Str ''a''] = firstOccurrences (comparator (defaults (fst ?p)))
        (candidates (defaults (fst ?p))
           (finalStates 30 sampleEngine (fst ambiguousGrammar) (snd ambiguousGrammar)
              (InputArray [Str ''a'']) ?s))"
    by blast
  then have "[Str ''a''] =
       firstOccurrences (comparator (assign (defaults (snd ambiguousGrammar)) ?s))
         [Str ''a'', Str ''a'']"
    unfolding d collapsed_candidates .
  with collapsed_parse collapsed_candidates show ?thesis by blast
qed

text \<open>
  With the comparator \<open>oneWay\<close> the ambiguous grammar returns both trees for the
  token \<open>a\<close>, and the comparator reports the second equal to the first.
\<close>

theorem parse_results_equal_under_comparator:
  "snd (parse 30 sampleEngine (fst ambiguousGrammar) (snd ambiguousGrammar)
          (InputArray [Str ''a'']) [Comparator oneWay])
     = Some (Inr [Arr [Str ''S'', Str ''a''], Arr [Str ''S'', Arr [Str ''A'', Str ''a'']]])
   \<and> comparator (defaults (fst (parse 30 sampleEngine (fst ambiguousGrammar)
          (snd ambiguousGrammar) (InputArray [Str ''a'']) [Comparator oneWay])))
       (Arr [Str ''S'', Arr [Str ''A'', Str ''a'']]) (Arr [Str ''S'', Str ''a''])"
  by code_simp

section \<open>addRule and the caller's array\<close>










section \<open>No prediction twice in a state set\<close>

lemma sameEntry_equalEntries: "sameEntry e1 e2 \<Longrightarrow> equalEntries e1 e2"
  by (cases e1; cases e2) simp_all

lemma sameEntries_equalArraysLoop:
  "list_all2 sameEntry a1 a2 \<Longrightarrow> equalArraysLoop a1 a2"
  by (induction a1 a2 rule: list_all2_induct) (simp_all add: sameEntry_equalEntries)

lemma sameEntries_equalArrays: "list_all2 sameEntry a1 a2 \<Longrightarrow> equalArrays a1 a2"
  by (simp add: equalArrays_def sameEntries_equalArraysLoop list_all2_lengthD)

lemma noDuplicates_append_advanced:
  "noDuplicates stateSet \<Longrightarrow> \<forall>s \<in> set new. pos s > 0 \<Longrightarrow> noDuplicates (stateSet @ new)"
proof -
  assume a: "noDuplicates stateSet" and p: "\<forall>s \<in> set new. pos s > 0"
  from p have "sorted_wrt (\<lambda>s t. \<not> samePrediction s t) new"
    by (induction new) (auto simp: samePrediction_def)
  with a p show ?thesis
    by (auto simp: noDuplicates_def sorted_wrt_append samePrediction_def)
qed

lemma completer_appends:
  "completer opts st ss (stateSet, n) = Inr (stateSet', n') \<Longrightarrow>
     \<exists>new. stateSet' = stateSet @ new \<and> (\<forall>s \<in> set new. pos s > 0)
            \<and> n' = n + int (length new)"
proof (induction ss arbitrary: stateSet n)
  case Nil
  then show ?case by simp
next
  case (Cons s ss)
  show ?case
  proof (cases "nextIs (getNext s) (lhs st)")
    case False
    with Cons.prems have "completer opts st ss (stateSet, n) = Inr (stateSet', n')" by simp
    from Cons.IH [OF this] show ?thesis .
  next
    case True
    with Cons.prems have
      c: "completer opts st ss (stateSet @ [advance s (subtree opts st)], n + 1)
            = Inr (stateSet', n')"
      by (simp split: if_splits)
    from Cons.IH [OF c] obtain new where
      n: "stateSet' = (stateSet @ [advance s (subtree opts st)]) @ new"
         "\<forall>s \<in> set new. pos s > 0" "n' = n + 1 + int (length new)" by blast
    let ?new = "advance s (subtree opts st) # new"
    have "stateSet' = stateSet @ ?new" using n(1) by simp
    moreover have "\<forall>s \<in> set ?new. pos s > 0" using n(2) by (simp add: advance_def)
    moreover have "n' = n + int (length ?new)" using n(3) by simp
    ultimately show ?thesis by blast
  qed
qed

lemma predictor_noDuplicates:
  "noDuplicates stateSet \<Longrightarrow> noDuplicates (predictor next i rhss stateSet)"
proof (induction rhss arbitrary: stateSet)
  case Nil
  then show ?case by simp
next
  case (Cons r rhss)
  show ?case
  proof (cases "found next r stateSet")
    case True
    with Cons show ?thesis by simp
  next
    case False
    have "\<forall>s \<in> set stateSet. \<not> samePrediction s (predicted next r i)"
    proof
      fix s assume s: "s \<in> set stateSet"
      show "\<not> samePrediction s (predicted next r i)"
      proof
        assume "samePrediction s (predicted next r i)"
        then have "lhs s = next \<and> equalArrays (rhs s) r \<and> pos s = 0"
          by (simp add: samePrediction_def predicted_def sameEntries_equalArrays)
        with s have "found next r stateSet" by (auto simp: found_def list_ex_iff)
        with False show False by simp
      qed
    qed
    with Cons.prems have "noDuplicates (stateSet @ [predicted next r i])"
      by (simp add: noDuplicates_def sorted_wrt_append)
    from Cons.IH [OF this] False show ?thesis by simp
  qed
qed

lemma gridOk_update:
  "gridOk g \<Longrightarrow> (i < length g \<Longrightarrow> noDuplicates stateSet) \<Longrightarrow> gridOk (g[i := stateSet])"
proof (cases "i < length g")
  case True
  assume "gridOk g" "i < length g \<Longrightarrow> noDuplicates stateSet"
  with True show ?thesis
    using set_update_subset_insert [of g i stateSet]
    by (auto simp: gridOk_def list_all_iff)
next
  case False
  assume "gridOk g"
  with False show ?thesis by (simp add: list_update_beyond not_less)
qed

lemma gridOk_nth: "gridOk g \<Longrightarrow> i < length g \<Longrightarrow> noDuplicates (g ! i)"
  by (simp add: gridOk_def list_all_length)

lemma processState_gridOk:
  assumes "gridOk (grid c)" and "processState E R opts input c = Inr c'"
  shows "gridOk (grid c')"
proof -
  let ?i = "loopI c"
  let ?stateSet = "grid c ! ?i"
  let ?st = "?stateSet ! loopJ c"
  show ?thesis
  proof (cases "getNext ?st")
    case None
    with assms(2) obtain stateSet' n' where
      c: "completer opts ?st (grid c ! ori ?st) (?stateSet, numIterationsDone c)
            = Inr (stateSet', n')"
      and g: "grid c' = (grid c)[?i := stateSet']"
      by (auto simp: processState_def Let_def split: sum.splits)
    from completer_appends [OF c] obtain new where
      n: "stateSet' = ?stateSet @ new" "\<forall>s \<in> set new. pos s > 0" by blast
    have "?i < length (grid c) \<Longrightarrow> noDuplicates stateSet'"
      using n assms(1) by (simp add: gridOk_nth noDuplicates_append_advanced)
    with assms(1) g show ?thesis by (simp add: gridOk_update)
  next
    case (Some nxt)
    show ?thesis
    proof (cases "?i \<ge> length input")
      case True
      with Some assms show ?thesis by (auto simp: processState_def Let_def)
    next
      case inside: False
      show ?thesis
      proof (cases nxt)
        case (Terminal r)
        show ?thesis
        proof (cases "test E r (input ! ?i)")
          case False
          with Terminal Some inside assms show ?thesis
            by (auto simp: processState_def Let_def)
        next
          case True
          with Terminal Some inside assms(2) have
            g: "grid c' = (grid c)[?i + 1 := grid c ! (?i + 1) @ [advance ?st (input ! ?i)]]"
            by (auto simp: processState_def Let_def)
          have "?i + 1 < length (grid c) \<Longrightarrow>
                  noDuplicates (grid c ! (?i + 1) @ [advance ?st (input ! ?i)])"
            using assms(1)
            by (simp add: gridOk_nth noDuplicates_append_advanced advance_def)
          with assms(1) g show ?thesis by (simp add: gridOk_update)
        qed
      next
        case (Nonterminal name)
        with Some inside assms(2) obtain rhss where
          g: "grid c' = (grid c)[?i := predictor name ?i rhss ?stateSet]"
          by (auto simp: processState_def Let_def split: option.splits if_splits)
        have "?i < length (grid c) \<Longrightarrow> noDuplicates (predictor name ?i rhss ?stateSet)"
          using assms(1) by (simp add: gridOk_nth predictor_noDuplicates)
        with assms(1) g show ?thesis by (simp add: gridOk_update)
      qed
    qed
  qed
qed

lemma step_gridOk:
  "gridOk (grid c) \<Longrightarrow> step E R opts input c = Inr c' \<Longrightarrow> gridOk (grid c')"
  by (auto simp: step_def split: if_splits dest: processState_gridOk)

lemma afterSteps_gridOk:
  "gridOk (grid c) \<Longrightarrow> afterSteps k E R opts input c = Inr c' \<Longrightarrow> gridOk (grid c')"
proof (induction k arbitrary: c)
  case 0
  then show ?case by simp
next
  case (Suc k)
  show ?case
  proof (cases "finished c")
    case True
    with Suc.prems show ?thesis by simp
  next
    case False
    with Suc.prems obtain c1 where
      s: "step E R opts input c = Inr c1" and a: "afterSteps k E R opts input c1 = Inr c'"
      by (auto split: sum.splits)
    from step_gridOk [OF Suc.prems(1) s] have "gridOk (grid c1)" .
    from Suc.IH [OF this a] show ?thesis .
  qed
qed

lemma initial_gridOk: "gridOk (grid (initial start n))"
  by (simp add: gridOk_def initial_def noDuplicates_def list_all_iff)

lemma found_ignores_ori_got:
  "found next r (map (\<lambda>s. s\<lparr> ori := f s, got := g s \<rparr>) stateSet) = found next r stateSet"
  by (simp add: found_def list_ex_iff)

text \<open>
  C8. At every point of a parse no state set holds two different states that are the
  same prediction: after any number of steps of the loops from the initial grid, in
  every state set, and in what the predictor makes of such a state set for any rules,
  so also between two of its appends. The search of the predictor reads the left-hand
  side, the right-hand side and the position of a state only, never \<open>ori\<close> or \<open>got\<close>.
\<close>

theorem no_duplicate_predictions:
  assumes "afterSteps k E R opts input (initial start n) = Inr c"
  shows "(\<forall>b x y. b < length (grid c) \<and> x < y \<and> y < length (grid c ! b) \<longrightarrow>
            \<not> samePrediction (grid c ! b ! x) (grid c ! b ! y))
       \<and> (\<forall>b next i rhss x y. b < length (grid c) \<and> x < y
              \<and> y < length (predictor next i rhss (grid c ! b)) \<longrightarrow>
            \<not> samePrediction (predictor next i rhss (grid c ! b) ! x)
                              (predictor next i rhss (grid c ! b) ! y))
       \<and> (\<forall>next r f g stateSet.
            found next r (map (\<lambda>s. s\<lparr> ori := f s, got := g s \<rparr>) stateSet)
              = found next r stateSet)"
proof -
  from afterSteps_gridOk [OF initial_gridOk assms] have ok: "gridOk (grid c)" .
  have a: "\<forall>b x y. b < length (grid c) \<and> x < y \<and> y < length (grid c ! b) \<longrightarrow>
            \<not> samePrediction (grid c ! b ! x) (grid c ! b ! y)"
  proof (intro allI impI)
    fix b x y
    assume h: "b < length (grid c) \<and> x < y \<and> y < length (grid c ! b)"
    with ok have "noDuplicates (grid c ! b)" by (simp add: gridOk_nth)
    with h show "\<not> samePrediction (grid c ! b ! x) (grid c ! b ! y)"
      by (simp add: noDuplicates_def sorted_wrt_iff_nth_less)
  qed
  have b: "\<forall>b next i rhss x y. b < length (grid c) \<and> x < y
              \<and> y < length (predictor next i rhss (grid c ! b)) \<longrightarrow>
            \<not> samePrediction (predictor next i rhss (grid c ! b) ! x)
                              (predictor next i rhss (grid c ! b) ! y)"
  proof (intro allI impI)
    fix b "next" i rhss x y
    assume h: "b < length (grid c) \<and> x < y
              \<and> y < length (predictor next i rhss (grid c ! b))"
    with ok have "noDuplicates (predictor next i rhss (grid c ! b))"
      by (simp add: gridOk_nth predictor_noDuplicates)
    with h show "\<not> samePrediction (predictor next i rhss (grid c ! b) ! x)
                              (predictor next i rhss (grid c ! b) ! y)"
      by (simp add: noDuplicates_def sorted_wrt_iff_nth_less)
  qed
  from a b found_ignores_ori_got show ?thesis by blast
qed

lemma sample_afterScan:
  "afterSteps 2 sampleEngine sampleRules (defaults (snd sampleGrammar)) [Str ''a'']
     (initial ''S'' 1) = Inr afterScan"
  by code_simp

theorem no_duplicate_predictions_witness:
  "afterSteps 2 sampleEngine sampleRules (defaults (snd sampleGrammar)) [Str ''a'']
     (initial ''S'' 1) = Inr afterScan
   \<and> \<not> samePrediction
         \<lparr> lhs = [], rhs = [Nonterminal ''S''], pos = 0, ori = 0, got = [] \<rparr>
         \<lparr> lhs = ''S'', rhs = [Terminal (RegExp ''^a$'' [])], pos = 0, ori = 0, got = [] \<rparr>"
proof -
  from no_duplicate_predictions [OF sample_afterScan] have
    "\<forall>b x y. b < length (grid afterScan) \<and> x < y \<and> y < length (grid afterScan ! b) \<longrightarrow>
            \<not> samePrediction (grid afterScan ! b ! x) (grid afterScan ! b ! y)"
    by (rule conjunct1)
  then have "0 < length (grid afterScan) \<and> (0::nat) < 1 \<and> 1 < length (grid afterScan ! 0) \<longrightarrow>
            \<not> samePrediction (grid afterScan ! 0 ! 0) (grid afterScan ! 0 ! 1)"
    by blast
  then have "\<not> samePrediction
         \<lparr> lhs = [], rhs = [Nonterminal ''S''], pos = 0, ori = 0, got = [] \<rparr>
         \<lparr> lhs = ''S'', rhs = [Terminal (RegExp ''^a$'' [])], pos = 0, ori = 0, got = [] \<rparr>"
    by (simp add: afterScan_def)
  with sample_afterScan show ?thesis by simp
qed

section \<open>The predictor\<close>

lemma equalEntries_sameEntry:
  "\<not> loose e1 e2 \<Longrightarrow> equalEntries e1 e2 = sameEntry e1 e2"
  by (cases e1; cases e2) simp_all

lemma equalArraysLoop_sameEntry:
  "looseFree a b \<Longrightarrow> length a = length b \<Longrightarrow>
     equalArraysLoop a b = list_all2 sameEntry a b"
proof (induction a arbitrary: b)
  case Nil
  then show ?case by simp
next
  case (Cons e1 a)
  then obtain e2 b' where b: "b = e2 # b'" by (cases b) simp_all
  with Cons.prems have "\<not> loose e1 e2" and "looseFree a b'" and "length a = length b'"
    by (simp_all add: looseFree_def)
  with Cons.IH [of b'] b show ?case by (simp add: equalEntries_sameEntry)
qed

lemma equalArrays_sameEntry:
  "looseFree a b \<Longrightarrow> equalArrays a b = list_all2 sameEntry a b"
  by (auto simp: equalArrays_def equalArraysLoop_sameEntry dest: list_all2_lengthD)

lemma found_present:
  assumes "\<forall>s \<in> set stateSet. lhs s = name \<and> pos s = 0 \<longrightarrow> looseFree (rhs s) r"
  shows "found name r stateSet = present name r stateSet"
  using assms by (auto simp: found_def present_def list_ex_iff equalArrays_sameEntry)

lemma present_append:
  "present name q (stateSet @ [predicted name r i])
     = (present name q stateSet \<or> list_all2 sameEntry r q)"
  by (auto simp: present_def predicted_def list_ex_iff)

lemma predictor_exact:
  assumes "\<forall>s \<in> set stateSet. lhs s = name \<and> pos s = 0 \<longrightarrow>
             (\<forall>r \<in> set rhss. looseFree (rhs s) r)"
    and "\<forall>a \<in> set rhss. \<forall>r \<in> set rhss. looseFree a r"
  shows "predictor name i rhss stateSet =
           stateSet @ map (\<lambda>r. predicted name r i)
             (firstOccurrences (list_all2 sameEntry)
                (filter (\<lambda>r. \<not> present name r stateSet) rhss))"
  using assms
proof (induction rhss arbitrary: stateSet)
  case Nil
  show ?case by simp
next
  case (Cons r rhss)
  have f: "found name r stateSet = present name r stateSet"
    using Cons.prems(1) by (intro found_present) simp
  show ?case
  proof (cases "present name r stateSet")
    case True
    have "predictor name i (r # rhss) stateSet = predictor name i rhss stateSet"
      using True f by simp
    also have "\<dots> = stateSet @ map (\<lambda>r. predicted name r i)
             (firstOccurrences (list_all2 sameEntry)
                (filter (\<lambda>r. \<not> present name r stateSet) rhss))"
      using Cons.prems by (intro Cons.IH) simp_all
    finally show ?thesis using True by simp
  next
    case False
    let ?S = "stateSet @ [predicted name r i]"
    have 1: "\<forall>s \<in> set ?S. lhs s = name \<and> pos s = 0 \<longrightarrow>
               (\<forall>r \<in> set rhss. looseFree (rhs s) r)"
      using Cons.prems by (auto simp: predicted_def)
    have 2: "\<forall>a \<in> set rhss. \<forall>r \<in> set rhss. looseFree a r"
      using Cons.prems(2) by simp
    have fl: "filter (\<lambda>q. \<not> present name q ?S) rhss
              = filter (\<lambda>q. \<not> list_all2 sameEntry r q)
                  (filter (\<lambda>q. \<not> present name q stateSet) rhss)"
      by (auto simp: present_append intro: filter_cong)
    have "predictor name i (r # rhss) stateSet = predictor name i rhss ?S"
      using False f by simp
    also have "\<dots> = ?S @ map (\<lambda>r. predicted name r i)
             (firstOccurrences (list_all2 sameEntry)
                (filter (\<lambda>q. \<not> present name q ?S) rhss))"
      using 1 2 by (rule Cons.IH)
    finally show ?thesis using False unfolding fl by simp
  qed
qed

lemma noLoosePairs_predictor:
  assumes "noLoosePairs name rhss stateSet"
  shows "predictor name i rhss stateSet =
           stateSet @ map (\<lambda>r. predicted name r i)
             (firstOccurrences (list_all2 sameEntry)
                (filter (\<lambda>r. \<not> present name r stateSet) rhss))"
proof (rule predictor_exact)
  show "\<forall>s \<in> set stateSet. lhs s = name \<and> pos s = 0 \<longrightarrow>
             (\<forall>r \<in> set rhss. looseFree (rhs s) r)"
    using assms by (auto simp: noLoosePairs_def list_all_iff)
  show "\<forall>a \<in> set rhss. \<forall>r \<in> set rhss. looseFree a r"
    using assms by (auto simp: noLoosePairs_def list_all_iff)
qed

text \<open>
  C5 (as amended). For every state set but the last (\<open>i < N\<close>) and every state in it
  whose next symbol is a nonterminal, the predictor runs. A nonterminal with no rules
  raises the unknown-nonterminal error. Otherwise the attempt is counted: it raises
  the iteration-limit error when \<open>maxIterations\<close> is positive and the counter is above
  it; if not, and if the loose comparison of the predictor has no string to take for a
  regular expression (\<open>noLoosePairs\<close>), exactly the productions of the nonterminal
  that are not present at dot zero in the state set, each once (a production with the
  same entries as an earlier one is present when its turn comes), are appended in
  their order as fresh states with the dot in front, origin \<open>i\<close> and no tokens. In
  the last state set (\<open>i = N\<close>) the state is passed over: nothing is predicted and no
  error is raised.
\<close>

theorem predictor_before_last_set:
  assumes "getNext (grid c ! loopI c ! loopJ c) = Some (Nonterminal name)"
  shows "(loopI c < length input \<and> R name = None \<longrightarrow>
            processState E R opts input c = Inl (UnknownNonterminal name))
       \<and> (loopI c < length input \<and> R name = Some rhss
            \<and> 0 < maxIterations opts \<and> maxIterations opts < numIterationsDone c \<longrightarrow>
            processState E R opts input c = Inl IterationLimit)
       \<and> (loopI c < length input \<and> R name = Some rhss
            \<and> \<not> (0 < maxIterations opts \<and> maxIterations opts < numIterationsDone c)
            \<and> noLoosePairs name rhss (grid c ! loopI c) \<longrightarrow>
            processState E R opts input c =
              Inr (c\<lparr> grid := (grid c)[loopI c :=
                         grid c ! loopI c
                         @ map (\<lambda>r. \<lparr> lhs = name, rhs = r, pos = 0, ori = loopI c, got = [] \<rparr>)
                             (firstOccurrences (list_all2 sameEntry)
                                (filter (\<lambda>r. \<not> present name r (grid c ! loopI c)) rhss))],
                      loopJ := loopJ c + 1,
                      numIterationsDone := numIterationsDone c + 1 \<rparr>))
       \<and> (length input \<le> loopI c \<longrightarrow>
            processState E R opts input c = Inr (c\<lparr> loopJ := loopJ c + 1 \<rparr>))"
proof (intro conjI impI)
  assume "loopI c < length input \<and> R name = None"
  with assms show "processState E R opts input c = Inl (UnknownNonterminal name)"
    by (simp add: processState_def Let_def)
next
  assume "loopI c < length input \<and> R name = Some rhss
            \<and> 0 < maxIterations opts \<and> maxIterations opts < numIterationsDone c"
  with assms show "processState E R opts input c = Inl IterationLimit"
    by (simp add: processState_def Let_def limitReached_def)
next
  assume h: "loopI c < length input \<and> R name = Some rhss
            \<and> \<not> (0 < maxIterations opts \<and> maxIterations opts < numIterationsDone c)
            \<and> noLoosePairs name rhss (grid c ! loopI c)"
  then have "noLoosePairs name rhss (grid c ! loopI c)" by simp
  from noLoosePairs_predictor [OF this, of "loopI c"]
  have p: "predictor name (loopI c) rhss (grid c ! loopI c) =
             grid c ! loopI c
             @ map (\<lambda>r. \<lparr> lhs = name, rhs = r, pos = 0, ori = loopI c, got = [] \<rparr>)
                 (firstOccurrences (list_all2 sameEntry)
                    (filter (\<lambda>r. \<not> present name r (grid c ! loopI c)) rhss))"
    by (simp add: predicted_def)
  from h have l: "\<not> limitReached opts (numIterationsDone c)"
    by (auto simp: limitReached_def)
  from h have "processState E R opts input c =
      Inr (c\<lparr> grid := (grid c)[loopI c := predictor name (loopI c) rhss (grid c ! loopI c)],
              loopJ := loopJ c + 1,
              numIterationsDone := numIterationsDone c + 1 \<rparr>)"
    using assms l by (simp add: processState_def Let_def)
  then show "processState E R opts input c =
              Inr (c\<lparr> grid := (grid c)[loopI c :=
                         grid c ! loopI c
                         @ map (\<lambda>r. \<lparr> lhs = name, rhs = r, pos = 0, ori = loopI c, got = [] \<rparr>)
                             (firstOccurrences (list_all2 sameEntry)
                                (filter (\<lambda>r. \<not> present name r (grid c ! loopI c)) rhss))],
                      loopJ := loopJ c + 1,
                      numIterationsDone := numIterationsDone c + 1 \<rparr>)"
    by (simp only: p)
next
  assume "length input \<le> loopI c"
  with assms show "processState E R opts input c = Inr (c\<lparr> loopJ := loopJ c + 1 \<rparr>)"
    by (simp add: processState_def Let_def)
qed

lemma sample_first_state:
  "getNext (grid (initial ''S'' 1) ! loopI (initial ''S'' 1) ! loopJ (initial ''S'' 1))
     = Some (Nonterminal ''S'')"
  "getNext (grid (initial ''S'' 0) ! loopI (initial ''S'' 0) ! loopJ (initial ''S'' 0))
     = Some (Nonterminal ''S'')"
  "getNext (grid predictedAgain ! loopI predictedAgain ! loopJ predictedAgain)
     = Some (Nonterminal ''S'')"
  "getNext (grid overLimit ! loopI overLimit ! loopJ overLimit) = Some (Nonterminal ''S'')"
  by code_simp+

lemma sample_unknown:
  "loopI (initial ''S'' 1) < length [Str ''a''] \<and> Map.empty ''S'' = (None :: entry list list option)"
  by simp (simp add: initial_def)

lemma sample_fresh:
  "loopI (initial ''S'' 1) < length [Str ''a'']
   \<and> sampleRules ''S'' = Some [[Terminal (RegExp ''^a$'' [])]]
   \<and> \<not> (0 < maxIterations (defaults (snd sampleGrammar))
         \<and> maxIterations (defaults (snd sampleGrammar)) < numIterationsDone (initial ''S'' 1))
   \<and> noLoosePairs ''S'' [[Terminal (RegExp ''^a$'' [])]]
        (grid (initial ''S'' 1) ! loopI (initial ''S'' 1))"
  by code_simp

lemma sample_fresh_result:
  "(initial ''S'' 1)\<lparr> grid := (grid (initial ''S'' 1))[loopI (initial ''S'' 1) :=
        grid (initial ''S'' 1) ! loopI (initial ''S'' 1)
        @ map (\<lambda>r. \<lparr> lhs = ''S'', rhs = r, pos = 0, ori = loopI (initial ''S'' 1), got = [] \<rparr>)
            (firstOccurrences (list_all2 sameEntry)
               (filter (\<lambda>r. \<not> present ''S'' r (grid (initial ''S'' 1) ! loopI (initial ''S'' 1)))
                  [[Terminal (RegExp ''^a$'' [])]]))],
      loopJ := loopJ (initial ''S'' 1) + 1,
      numIterationsDone := numIterationsDone (initial ''S'' 1) + 1 \<rparr> = afterPrediction"
  by code_simp

lemma sample_present:
  "loopI predictedAgain < length [Str ''a'']
   \<and> sampleRules ''S'' = Some [[Terminal (RegExp ''^a$'' [])]]
   \<and> \<not> (0 < maxIterations (defaults (snd sampleGrammar))
         \<and> maxIterations (defaults (snd sampleGrammar)) < numIterationsDone predictedAgain)
   \<and> noLoosePairs ''S'' [[Terminal (RegExp ''^a$'' [])]]
        (grid predictedAgain ! loopI predictedAgain)"
  by code_simp

lemma sample_present_result:
  "predictedAgain\<lparr> grid := (grid predictedAgain)[loopI predictedAgain :=
        grid predictedAgain ! loopI predictedAgain
        @ map (\<lambda>r. \<lparr> lhs = ''S'', rhs = r, pos = 0, ori = loopI predictedAgain, got = [] \<rparr>)
            (firstOccurrences (list_all2 sameEntry)
               (filter (\<lambda>r. \<not> present ''S'' r (grid predictedAgain ! loopI predictedAgain))
                  [[Terminal (RegExp ''^a$'' [])]]))],
      loopJ := loopJ predictedAgain + 1,
      numIterationsDone := numIterationsDone predictedAgain + 1 \<rparr>
   = afterPrediction\<lparr> numIterationsDone := 2 \<rparr>"
  by code_simp

lemma sample_limit:
  "loopI overLimit < length [Str ''a'']
   \<and> sampleRules ''S'' = Some [[Terminal (RegExp ''^a$'' [])]]
   \<and> 0 < maxIterations limitOne \<and> maxIterations limitOne < numIterationsDone overLimit"
  by code_simp

lemma sample_last:
  "length ([] :: value list) \<le> loopI (initial ''S'' 0)"
  by (simp add: initial_def)

theorem predictor_before_last_set_witness:
  "processState sampleEngine Map.empty (defaults (snd sampleGrammar)) [Str ''a'']
       (initial ''S'' 1) = Inl (UnknownNonterminal ''S'')
   \<and> processState sampleEngine sampleRules limitOne [Str ''a''] overLimit
       = Inl IterationLimit
   \<and> processState sampleEngine sampleRules (defaults (snd sampleGrammar)) [Str ''a'']
       (initial ''S'' 1) = Inr afterPrediction
   \<and> processState sampleEngine sampleRules (defaults (snd sampleGrammar)) [Str ''a'']
       predictedAgain = Inr (afterPrediction\<lparr> numIterationsDone := 2 \<rparr>)
   \<and> processState sampleEngine sampleRules (defaults (snd sampleGrammar)) []
       (initial ''S'' 0) = Inr ((initial ''S'' 0)\<lparr> loopJ := loopJ (initial ''S'' 0) + 1 \<rparr>)"
proof -
  let ?opts = "defaults (snd sampleGrammar)"
  have 1: "processState sampleEngine Map.empty ?opts [Str ''a''] (initial ''S'' 1)
             = Inl (UnknownNonterminal ''S'')"
    using predictor_before_last_set [OF sample_first_state(1),
            where input = "[Str ''a'']" and R = Map.empty and E = sampleEngine and opts = ?opts,
            THEN conjunct1, THEN mp, OF sample_unknown] .
  have 2: "processState sampleEngine sampleRules limitOne [Str ''a''] overLimit
             = Inl IterationLimit"
    using predictor_before_last_set [OF sample_first_state(4),
            where input = "[Str ''a'']" and R = sampleRules and E = sampleEngine
              and opts = limitOne and rhss = "[[Terminal (RegExp ''^a$'' [])]]",
            THEN conjunct2, THEN conjunct1, THEN mp, OF sample_limit] .
  have 3: "processState sampleEngine sampleRules ?opts [Str ''a''] (initial ''S'' 1)
             = Inr afterPrediction"
    using predictor_before_last_set [OF sample_first_state(1),
            where input = "[Str ''a'']" and R = sampleRules and E = sampleEngine
              and opts = ?opts and rhss = "[[Terminal (RegExp ''^a$'' [])]]",
            THEN conjunct2, THEN conjunct2, THEN conjunct1, THEN mp, OF sample_fresh]
    by (simp only: sample_fresh_result)
  have 4: "processState sampleEngine sampleRules ?opts [Str ''a''] predictedAgain
             = Inr (afterPrediction\<lparr> numIterationsDone := 2 \<rparr>)"
    using predictor_before_last_set [OF sample_first_state(3),
            where input = "[Str ''a'']" and R = sampleRules and E = sampleEngine
              and opts = ?opts and rhss = "[[Terminal (RegExp ''^a$'' [])]]",
            THEN conjunct2, THEN conjunct2, THEN conjunct1, THEN mp, OF sample_present]
    by (simp only: sample_present_result)
  have 5: "processState sampleEngine sampleRules ?opts [] (initial ''S'' 0)
             = Inr ((initial ''S'' 0)\<lparr> loopJ := loopJ (initial ''S'' 0) + 1 \<rparr>)"
    using predictor_before_last_set [OF sample_first_state(2),
            where input = "[]" and R = sampleRules and E = sampleEngine and opts = ?opts,
            THEN conjunct2, THEN conjunct2, THEN conjunct2, THEN mp, OF sample_last] .
  from 1 2 3 4 5 show ?thesis by blast
qed

text \<open>
  C5 as stated fails in the last state set. Parsing the empty input, the only state
  set is the last one: with no rule for the start symbol \<open>parse\<close> returns the empty
  list instead of raising, and with the sample grammar nothing is appended for \<open>S\<close>.
  It also fails before the last state set when a right-hand side holds a string that
  reads like a regular expression: with the rules \<open>S -> '/^a$/' | /a/\<close> the second
  production is not present in state set 0 after the first is appended, and the
  predictor does not append it.
\<close>

theorem no_prediction_in_last_set:
  "snd (parse 20 sampleEngine (fst emptyGrammar) (snd emptyGrammar) (InputArray []) [])
     = Some (Inr [])
   \<and> map_sum id grid
       (afterSteps 20 sampleEngine sampleRules (defaults (snd sampleGrammar)) []
          (initial ''S'' 0))
     = Inr [[\<lparr> lhs = [], rhs = [Nonterminal ''S''], pos = 0, ori = 0, got = [] \<rparr>]]
   \<and> rulesOf (fst looseGrammar) (snd looseGrammar) ''S''
     = Some [[Nonterminal ''/^a$/''], [Terminal (RegExp ''^a$'' [])]]
   \<and> map_sum id grid
       (afterSteps 1 sampleEngine (rulesOf (fst looseGrammar) (snd looseGrammar))
          (defaults (snd looseGrammar)) [Str ''a''] (initial ''S'' 1))
     = Inr [[\<lparr> lhs = [], rhs = [Nonterminal ''S''], pos = 0, ori = 0, got = [] \<rparr>,
             \<lparr> lhs = ''S'', rhs = [Nonterminal ''/^a$/''], pos = 0, ori = 0, got = [] \<rparr>],
            []]
   \<and> \<not> present ''S'' [Terminal (RegExp ''^a$'' [])]
         [\<lparr> lhs = [], rhs = [Nonterminal ''S''], pos = 0, ori = 0, got = [] \<rparr>,
          \<lparr> lhs = ''S'', rhs = [Nonterminal ''/^a$/''], pos = 0, ori = 0, got = [] \<rparr>]"
  by code_simp

section \<open>The iteration counter\<close>



















section \<open>Anchored terminals\<close>











































end
